theory Spec2Isabelle
  imports Complex_Main
begin

section \<open>Data model (database/schema.sql)\<close>

text \<open>
  The approval engine (services/approvalService.js, routes/approvals.js) works on the
  tables of database/schema.sql. A table is a list of rows in storage order; a nullable
  column whose NULL the engine can meet is an \<open>option\<close>. Columns the engine never reads
  (names, timestamps, receipt data) are left out. Amounts are DECIMAL(15,2) and compared
  exactly, so they are rationals.
\<close>

datatype status = Pending | Approved | Rejected | Processing

datatype action = Approve | Reject

datatype rule_kind = Sequential | Percentage | SpecificApprover | Hybrid

datatype user_role = Admin | Manager | Employee

datatype step_role = StepManager | StepAdmin | StepSpecificUser

record user =
  user_id :: nat
  user_company_id :: nat
  role :: user_role
  manager_id :: "nat option"
  user_is_active :: bool

record approval_rule =
  rule_id :: nat
  rule_company_id :: nat
  rule_type :: rule_kind
  min_amount :: "rat option"
  max_amount :: "rat option"
  percentage_required :: "int option"
  specific_approver_id :: "nat option"
  sequence_order :: "int option"
  is_active :: bool

record approval_rule_step =
  step_rule_id :: nat
  step_order :: int
  approver_role :: step_role
  approver_id :: "nat option"

record expense =
  expense_id :: nat
  employee_id :: nat
  expense_company_id :: nat
  expense_status :: status
  approval_rule_id :: "nat option"

record expense_approval =
  ea_expense_id :: nat
  ea_approver_id :: "nat option"
  ea_step_order :: int
  ea_status :: status
  ea_comments :: "string option"

record notification =
  n_user_id :: nat
  n_expense_id :: nat
  n_type :: string
  n_title :: string
  n_message :: string

record db =
  users :: "user list"
  approval_rules :: "approval_rule list"
  approval_rule_steps :: "approval_rule_step list"
  expenses :: "expense list"
  expense_approvals :: "expense_approval list"
  notifications :: "notification list"

text \<open>
  What the JavaScript can throw or answer: \<open>throw new Error('Approval rule not found')\<close>,
  the TypeError of reading a column of \<open>rows[0]\<close> when the query returned no row, and the
  foreign-key violation PostgreSQL raises when an \<open>expense_approvals\<close> row names an expense
  or a user that does not exist. A function that fails returns \<open>Inl\<close>; its transaction is
  rolled back, so the database is the one it was called with.
\<close>

datatype error = RuleNotFound | TypeError | ForeignKeyViolation

text \<open>The string the action carries into the status columns.\<close>

fun status_of_action :: "action \<Rightarrow> status" where
  "status_of_action Approve = Approved"
| "status_of_action Reject = Rejected"

section \<open>ORDER BY\<close>

text \<open>
  \<open>order_by before\<close> sorts rows so that no row is followed by one that sorts strictly
  \<open>before\<close> it. SQL leaves the order of rows with equal keys open; this insertion sort
  keeps them in storage order. The theorems on selection below do not depend on that choice.
\<close>

fun insert_row :: "('a \<Rightarrow> 'a \<Rightarrow> bool) \<Rightarrow> 'a \<Rightarrow> 'a list \<Rightarrow> 'a list" where
  "insert_row before x [] = [x]"
| "insert_row before x (y # ys) =
     (if before y x then y # insert_row before x ys else x # y # ys)"

fun order_by :: "('a \<Rightarrow> 'a \<Rightarrow> bool) \<Rightarrow> 'a list \<Rightarrow> 'a list" where
  "order_by before [] = []"
| "order_by before (x # xs) = insert_row before x (order_by before xs)"

section \<open>Rule selection: getApplicableRule\<close>

text \<open>
  \<^verbatim>\<open>WHERE company_id = $1 AND is_active = true
    AND (min_amount IS NULL OR $2 >= min_amount)
    AND (max_amount IS NULL OR $2 <= max_amount)\<close>
\<close>

definition rule_matches :: "rat \<Rightarrow> nat \<Rightarrow> approval_rule \<Rightarrow> bool" where
  "rule_matches amount cid r \<longleftrightarrow>
     rule_company_id r = cid \<and> is_active r
     \<and> (case min_amount r of None \<Rightarrow> True | Some lo \<Rightarrow> lo \<le> amount)
     \<and> (case max_amount r of None \<Rightarrow> True | Some hi \<Rightarrow> amount \<le> hi)"

text \<open>
  \<^verbatim>\<open>ORDER BY min_amount DESC, sequence_order ASC\<close>. PostgreSQL treats NULL as larger
  than every value: it comes first under DESC and last under ASC.
\<close>

fun min_amount_before :: "rat option \<Rightarrow> rat option \<Rightarrow> bool" where
  "min_amount_before None None = False"
| "min_amount_before None (Some b) = True"
| "min_amount_before (Some a) None = False"
| "min_amount_before (Some a) (Some b) = (b < a)"

fun sequence_order_before :: "int option \<Rightarrow> int option \<Rightarrow> bool" where
  "sequence_order_before None None = False"
| "sequence_order_before None (Some b) = False"
| "sequence_order_before (Some a) None = True"
| "sequence_order_before (Some a) (Some b) = (a < b)"

definition rule_before :: "approval_rule \<Rightarrow> approval_rule \<Rightarrow> bool" where
  "rule_before r1 r2 \<longleftrightarrow>
     min_amount_before (min_amount r1) (min_amount r2)
     \<or> (min_amount r1 = min_amount r2
        \<and> sequence_order_before (sequence_order r1) (sequence_order r2))"

text \<open>\<^verbatim>\<open>LIMIT 1\<close> and \<^verbatim>\<open>return result.rows[0] || null\<close>.\<close>

definition getApplicableRule :: "db \<Rightarrow> rat \<Rightarrow> nat \<Rightarrow> approval_rule option" where
  "getApplicableRule d expenseAmount companyId =
     (case order_by rule_before (filter (rule_matches expenseAmount companyId) (approval_rules d)) of
        [] \<Rightarrow> None
      | r # _ \<Rightarrow> Some r)"

section \<open>Workflow construction: createApprovalWorkflow\<close>

text \<open>\<^verbatim>\<open>SELECT ... WHERE id = $1\<close> on a primary key, then \<^verbatim>\<open>rows[0]\<close>.\<close>

definition find_expense :: "db \<Rightarrow> nat \<Rightarrow> expense option" where
  "find_expense d eid = find (\<lambda>e. expense_id e = eid) (expenses d)"

definition find_rule :: "db \<Rightarrow> nat \<Rightarrow> approval_rule option" where
  "find_rule d rid = find (\<lambda>r. rule_id r = rid) (approval_rules d)"

definition find_user :: "db \<Rightarrow> nat \<Rightarrow> user option" where
  "find_user d uid = find (\<lambda>u. user_id u = uid) (users d)"

text \<open>
  \<^verbatim>\<open>INSERT INTO expense_approvals (expense_id, approver_id, step_order, status)
  VALUES ($1, $2, $3, 'pending')\<close>, with the two foreign keys of the table:
  \<^verbatim>\<open>expense_id REFERENCES expenses(id)\<close>, \<^verbatim>\<open>approver_id REFERENCES users(id)\<close>
  (a NULL approver passes).
\<close>

definition new_approval_row :: "nat \<Rightarrow> nat option \<Rightarrow> int \<Rightarrow> expense_approval" where
  "new_approval_row expenseId approverId stepOrder =
     \<lparr>ea_expense_id = expenseId, ea_approver_id = approverId,
      ea_step_order = stepOrder, ea_status = Pending, ea_comments = None\<rparr>"

definition insert_expense_approval :: "db \<Rightarrow> nat \<Rightarrow> nat option \<Rightarrow> int \<Rightarrow> error + db" where
  "insert_expense_approval d expenseId approverId stepOrder =
     (if find_expense d expenseId = None then Inl ForeignKeyViolation
      else if (case approverId of None \<Rightarrow> False | Some a \<Rightarrow> find_user d a = None)
        then Inl ForeignKeyViolation
      else Inr (d\<lparr>expense_approvals := expense_approvals d @
             [new_approval_row expenseId approverId stepOrder]\<rparr>))"

text \<open>JavaScript's \<^verbatim>\<open>if (approverId)\<close>: null, undefined and 0 are falsy.\<close>

fun truthy :: "nat option \<Rightarrow> bool" where
  "truthy None = False"
| "truthy (Some a) = (a \<noteq> 0)"

text \<open>
  The approver of one step in createSequentialApprovals: \<^verbatim>\<open>step.approver_id\<close>, replaced
  for the role 'manager' by the manager of the expense's employee
  (\<^verbatim>\<open>expense.rows[0].employee_id\<close> throws when the expense is missing;
  \<^verbatim>\<open>manager.rows[0]?.manager_id\<close> does not throw). No other role is looked at.
\<close>

definition step_approver :: "db \<Rightarrow> nat \<Rightarrow> approval_rule_step \<Rightarrow> error + nat option" where
  "step_approver d expenseId step =
     (if approver_role step = StepManager then
        (case find_expense d expenseId of
           None \<Rightarrow> Inl TypeError
         | Some e \<Rightarrow>
             Inr (case find_user d (employee_id e) of
                    None \<Rightarrow> None
                  | Some u \<Rightarrow> manager_id u))
      else Inr (approver_id step))"

text \<open>The body of \<^verbatim>\<open>for (const step of steps.rows)\<close>.\<close>

fun sequential_steps :: "db \<Rightarrow> nat \<Rightarrow> approval_rule_step list \<Rightarrow> error + db" where
  "sequential_steps d expenseId [] = Inr d"
| "sequential_steps d expenseId (step # rest) =
     (case step_approver d expenseId step of
        Inl err \<Rightarrow> Inl err
      | Inr approverId \<Rightarrow>
          if truthy approverId then
            (case insert_expense_approval d expenseId approverId (step_order step) of
               Inl err \<Rightarrow> Inl err
             | Inr d' \<Rightarrow> sequential_steps d' expenseId rest)
          else sequential_steps d expenseId rest)"

definition rule_steps :: "db \<Rightarrow> nat \<Rightarrow> approval_rule_step list" where
  "rule_steps d ruleId =
     order_by (\<lambda>a b. step_order a < step_order b)
       (filter (\<lambda>s. step_rule_id s = ruleId) (approval_rule_steps d))"

definition createSequentialApprovals :: "db \<Rightarrow> nat \<Rightarrow> nat \<Rightarrow> error + db" where
  "createSequentialApprovals d expenseId ruleId =
     sequential_steps d expenseId (rule_steps d ruleId)"

text \<open>The loop of createPercentageApprovals: one row per approver, all with step_order 1.\<close>

fun insert_approvers :: "db \<Rightarrow> nat \<Rightarrow> nat list \<Rightarrow> error + db" where
  "insert_approvers d expenseId [] = Inr d"
| "insert_approvers d expenseId (a # rest) =
     (case insert_expense_approval d expenseId (Some a) 1 of
        Inl err \<Rightarrow> Inl err
      | Inr d' \<Rightarrow> insert_approvers d' expenseId rest)"

definition company_approvers :: "db \<Rightarrow> nat \<Rightarrow> nat list" where
  "company_approvers d companyId =
     map user_id (filter (\<lambda>u. user_company_id u = companyId
                             \<and> (role u = Manager \<or> role u = Admin) \<and> user_is_active u) (users d))"

definition createPercentageApprovals :: "db \<Rightarrow> nat \<Rightarrow> nat \<Rightarrow> error + db" where
  "createPercentageApprovals d expenseId ruleId =
     (case find_expense d expenseId of
        None \<Rightarrow> Inl TypeError
      | Some e \<Rightarrow> insert_approvers d expenseId (company_approvers d (expense_company_id e)))"

definition createSpecificApproverApproval :: "db \<Rightarrow> nat \<Rightarrow> nat option \<Rightarrow> error + db" where
  "createSpecificApproverApproval d expenseId approverId =
     insert_expense_approval d expenseId approverId 1"

definition createHybridApprovals :: "db \<Rightarrow> nat \<Rightarrow> nat \<Rightarrow> error + db" where
  "createHybridApprovals d expenseId ruleId =
     (case createPercentageApprovals d expenseId ruleId of
        Inl err \<Rightarrow> Inl err
      | Inr d' \<Rightarrow>
          (case find_rule d' ruleId of
             None \<Rightarrow> Inl TypeError
           | Some r \<Rightarrow>
               if truthy (specific_approver_id r)
               then createSpecificApproverApproval d' expenseId (specific_approver_id r)
               else Inr d'))"

text \<open>
  createApprovalWorkflow runs in a transaction of its own (BEGIN ... COMMIT, ROLLBACK in the
  catch block): \<open>Inr\<close> is the committed database, \<open>Inl\<close> the error rethrown after the
  rollback.
\<close>

definition createApprovalWorkflow :: "db \<Rightarrow> nat \<Rightarrow> nat \<Rightarrow> error + db" where
  "createApprovalWorkflow d expenseId ruleId =
     (case find_rule d ruleId of
        None \<Rightarrow> Inl RuleNotFound
      | Some approvalRule \<Rightarrow>
          (case rule_type approvalRule of
             Sequential \<Rightarrow> createSequentialApprovals d expenseId ruleId
           | Percentage \<Rightarrow> createPercentageApprovals d expenseId ruleId
           | SpecificApprover \<Rightarrow>
               createSpecificApproverApproval d expenseId (specific_approver_id approvalRule)
           | Hybrid \<Rightarrow> createHybridApprovals d expenseId ruleId))"

section \<open>JavaScript numbers\<close>

text \<open>
  checkPercentageApproval computes \<^verbatim>\<open>(approved / total) * 100\<close> on JavaScript numbers,
  which are IEEE 754 binary64 values: every operation returns the exact result rounded to
  the nearest value with a 53-bit significand, ties to the even significand. A finite
  number is modelled by the rational it denotes. The operands here are row counts and the
  constant 100, so results stay far inside the exponent range of binary64 and no overflow
  or subnormal case is modelled; \<^verbatim>\<open>0 / 0\<close> is NaN.
\<close>

datatype jsnum = NaN | Infinity | Finite rat

fun bit_length :: "int \<Rightarrow> nat" where
  "bit_length n = (if n \<le> 0 then 0 else Suc (bit_length (n div 2)))"

declare bit_length.simps [simp del]

definition pow2 :: "int \<Rightarrow> rat" where
  "pow2 e = (if 0 \<le> e then 2 ^ nat e else 1 / 2 ^ nat (- e))"

text \<open>For \<open>x > 0\<close>, the exponent \<open>e\<close> with \<open>2^e \<le> x < 2^(e+1)\<close>.\<close>

definition binary_exponent :: "rat \<Rightarrow> int" where
  "binary_exponent x =
     (let (p, q) = quotient_of x;
          d = int (bit_length p) - int (bit_length q)
      in if pow2 d \<le> x then d else d - 1)"

definition round_half_even :: "rat \<Rightarrow> int" where
  "round_half_even y =
     (let f = \<lfloor>y\<rfloor>; r = y - of_int f
      in if r < 1 / 2 then f
         else if 1 / 2 < r then f + 1
         else if even f then f else f + 1)"

definition to_double :: "rat \<Rightarrow> rat" where
  "to_double x =
     (if x = 0 then 0
      else let a = \<bar>x\<bar>; ulp = pow2 (binary_exponent a - 52)
           in sgn x * of_int (round_half_even (a / ulp)) * ulp)"

text \<open>
  Division and multiplication of non-negative numbers, and \<^verbatim>\<open>>=\<close> against a number.
  The counts arrive as decimal strings (node-postgres returns COUNT, a bigint, as a
  string) and \<^verbatim>\<open>/\<close> converts them to numbers first.
\<close>

definition js_div :: "nat \<Rightarrow> nat \<Rightarrow> jsnum" where
  "js_div a b =
     (let x = to_double (of_nat a); y = to_double (of_nat b)
      in if y = 0 then (if x = 0 then NaN else Infinity)
         else Finite (to_double (x / y)))"

fun js_mul :: "jsnum \<Rightarrow> rat \<Rightarrow> jsnum" where
  "js_mul NaN c = NaN"
| "js_mul Infinity c = Infinity"
| "js_mul (Finite x) c = Finite (to_double (x * c))"

fun js_ge :: "jsnum \<Rightarrow> rat \<Rightarrow> bool" where
  "js_ge NaN c = False"
| "js_ge Infinity c = True"
| "js_ge (Finite x) c = (c \<le> x)"

section \<open>Decision processing: processApproval\<close>

text \<open>\<^verbatim>\<open>{ update: false }\<close> and \<^verbatim>\<open>{ update: true, status: ... }\<close>.\<close>

datatype approval_result = NoUpdate | Update status

definition expense_rows :: "db \<Rightarrow> nat \<Rightarrow> expense_approval list" where
  "expense_rows d expenseId = filter (\<lambda>r. ea_expense_id r = expenseId) (expense_approvals d)"

definition checkSequentialApproval :: "db \<Rightarrow> nat \<Rightarrow> approval_result" where
  "checkSequentialApproval d expenseId =
     (let approvals = order_by (\<lambda>a b. ea_step_order a < ea_step_order b) (expense_rows d expenseId);
          allApproved = list_all (\<lambda>approval. ea_status approval = Approved) approvals;
          hasRejection = list_ex (\<lambda>approval. ea_status approval = Rejected) approvals
      in if hasRejection then Update Rejected
         else if allApproved then Update Approved
         else NoUpdate)"

text \<open>
  \<^verbatim>\<open>COUNT(*) as total, COUNT(CASE WHEN status = 'approved' THEN 1 END) as approved\<close>
  over the rows of the expense. \<open>percentage_required\<close> is an INTEGER column; a NULL
  compares as 0.
\<close>

definition checkPercentageApproval :: "db \<Rightarrow> nat \<Rightarrow> int option \<Rightarrow> approval_result" where
  "checkPercentageApproval d expenseId requiredPercentage =
     (let total = length (expense_rows d expenseId);
          approved = length (filter (\<lambda>r. ea_status r = Approved) (expense_rows d expenseId));
          approvalPercentage = js_mul (js_div approved total) 100
      in if js_ge approvalPercentage (case requiredPercentage of None \<Rightarrow> 0 | Some p \<Rightarrow> of_int p)
         then Update Approved
         else NoUpdate)"

text \<open>
  \<^verbatim>\<open>SELECT ea.status FROM expense_approvals ea
  JOIN approval_rules ar ON ar.specific_approver_id = ea.approver_id
  JOIN expenses e ON e.approval_rule_id = ar.id
  WHERE e.id = $1 AND ea.status = 'approved'\<close>
\<close>

definition specific_approvals :: "db \<Rightarrow> nat \<Rightarrow> expense_approval list" where
  "specific_approvals d expenseId =
     [ea. ea \<leftarrow> expense_approvals d, ar \<leftarrow> approval_rules d,
          ea_approver_id ea \<noteq> None \<and> specific_approver_id ar = ea_approver_id ea,
          e \<leftarrow> expenses d, approval_rule_id e = Some (rule_id ar),
          expense_id e = expenseId \<and> ea_status ea = Approved]"

definition checkHybridApproval :: "db \<Rightarrow> nat \<Rightarrow> int option \<Rightarrow> approval_result" where
  "checkHybridApproval d expenseId requiredPercentage =
     (if specific_approvals d expenseId \<noteq> [] then Update Approved
      else checkPercentageApproval d expenseId requiredPercentage)"

definition shouldUpdateExpenseStatus :: "db \<Rightarrow> nat \<Rightarrow> action \<Rightarrow> error + approval_result" where
  "shouldUpdateExpenseStatus d expenseId act =
     (case find_expense d expenseId of
        None \<Rightarrow> Inl TypeError
      | Some e \<Rightarrow>
          (case (case approval_rule_id e of None \<Rightarrow> None | Some rid \<Rightarrow> find_rule d rid) of
             None \<Rightarrow> Inr NoUpdate
           | Some approvalRule \<Rightarrow>
               if act = Reject then Inr (Update Rejected)
               else (case rule_type approvalRule of
                       Sequential \<Rightarrow> Inr (checkSequentialApproval d expenseId)
                     | Percentage \<Rightarrow>
                         Inr (checkPercentageApproval d expenseId (percentage_required approvalRule))
                     | SpecificApprover \<Rightarrow> Inr (Update Approved)
                     | Hybrid \<Rightarrow>
                         Inr (checkHybridApproval d expenseId (percentage_required approvalRule)))))"

text \<open>
  \<^verbatim>\<open>UPDATE expense_approvals SET status = $1, comments = $2, approved_at = CURRENT_TIMESTAMP
  WHERE expense_id = $3 AND approver_id = $4 AND status = 'pending'\<close>
\<close>

definition decide_row ::
  "nat \<Rightarrow> nat \<Rightarrow> action \<Rightarrow> string option \<Rightarrow> expense_approval \<Rightarrow> expense_approval" where
  "decide_row expenseId approverId act comments r =
     (if ea_expense_id r = expenseId \<and> ea_approver_id r = Some approverId
         \<and> ea_status r = Pending
      then r\<lparr>ea_status := status_of_action act, ea_comments := comments\<rparr>
      else r)"

definition update_approvals :: "db \<Rightarrow> nat \<Rightarrow> nat \<Rightarrow> action \<Rightarrow> string option \<Rightarrow> db" where
  "update_approvals d expenseId approverId act comments =
     d\<lparr>expense_approvals :=
         map (decide_row expenseId approverId act comments) (expense_approvals d)\<rparr>"

text \<open>\<^verbatim>\<open>UPDATE expenses SET status = $1, updated_at = CURRENT_TIMESTAMP WHERE id = $2\<close>\<close>

definition set_expense_status :: "nat \<Rightarrow> status \<Rightarrow> expense \<Rightarrow> expense" where
  "set_expense_status expenseId s e =
     (if expense_id e = expenseId then e\<lparr>expense_status := s\<rparr> else e)"

definition update_expense_status :: "db \<Rightarrow> nat \<Rightarrow> status \<Rightarrow> db" where
  "update_expense_status d expenseId s =
     d\<lparr>expenses := map (set_expense_status expenseId s) (expenses d)\<rparr>"

fun status_name :: "status \<Rightarrow> string" where
  "status_name Pending = ''pending''"
| "status_name Approved = ''approved''"
| "status_name Rejected = ''rejected''"
| "status_name Processing = ''processing''"

text \<open>
  processApproval: one transaction. \<open>Inr\<close> carries the committed database and the value
  returned; \<open>Inl\<close> is the error rethrown after ROLLBACK.
\<close>

definition processApproval ::
  "db \<Rightarrow> nat \<Rightarrow> nat \<Rightarrow> action \<Rightarrow> string option \<Rightarrow> error + (db \<times> approval_result)" where
  "processApproval d expenseId approverId act comments =
     (let d1 = update_approvals d expenseId approverId act comments
      in case shouldUpdateExpenseStatus d1 expenseId act of
           Inl err \<Rightarrow> Inl err
         | Inr NoUpdate \<Rightarrow> Inr (d1, NoUpdate)
         | Inr (Update s) \<Rightarrow>
             (let d2 = update_expense_status d1 expenseId s
              in case find_expense d2 expenseId of
                   None \<Rightarrow> Inl TypeError
                 | Some e \<Rightarrow>
                     Inr (d2\<lparr>notifications := notifications d2 @
                            [\<lparr>n_user_id = employee_id e, n_expense_id = expenseId,
                              n_type = ''expense_status_update'',
                              n_title = ''Expense '' @ status_name s,
                              n_message = ''Your expense has been '' @ status_name s\<rparr>]\<rparr>,
                          Update s)))"

section \<open>The route POST /:expenseId/process\<close>

text \<open>
  The handler, entered after the middleware has accepted the caller: \<open>userId\<close> and
  \<open>companyId\<close> are \<^verbatim>\<open>req.user.id\<close> and \<^verbatim>\<open>req.user.company_id\<close>, \<open>expenseId\<close> is the
  number in the URL, and the action and the comments are the request body. The answers are
  400 with the validation message, 404 'No pending approval found for this expense',
  500 'Failed to process approval', and the JSON body with \<^verbatim>\<open>expenseUpdated\<close> and
  \<^verbatim>\<open>finalStatus\<close>.
\<close>

datatype route_error = BadRequest | NoPendingApproval | ProcessFailed

text \<open>
  \<^verbatim>\<open>approvalActionSchema.validate(req.body)\<close>. The action is one of the two the type has.
  \<^verbatim>\<open>comments: Joi.string().max(500).optional()\<close> accepts a body without comments and a
  comment of 1 to 500 characters; the empty string and a longer one are refused. A comment
  is given character by character, so that its length is the one JavaScript counts.
\<close>

definition comments_valid :: "string option \<Rightarrow> bool" where
  "comments_valid comments =
     (case comments of None \<Rightarrow> True | Some s \<Rightarrow> s \<noteq> [] \<and> length s \<le> 500)"

text \<open>
  The expense id goes into the pending-row query as the parameter compared with
  \<^verbatim>\<open>ea.expense_id\<close>, an INTEGER column. PostgreSQL refuses a parameter above
  2147483647 (value out of range); the query throws and the handler's catch block answers
  500.
\<close>

definition integer_param :: "nat \<Rightarrow> bool" where
  "integer_param n \<longleftrightarrow> int n \<le> 2147483647"

definition pendingApproval :: "db \<Rightarrow> nat \<Rightarrow> nat \<Rightarrow> nat \<Rightarrow> expense_approval list" where
  "pendingApproval d expenseId userId companyId =
     [ea. ea \<leftarrow> expense_approvals d, e \<leftarrow> expenses d,
          ea_expense_id ea = expense_id e,
          ea_expense_id ea = expenseId \<and> ea_approver_id ea = Some userId
          \<and> ea_status ea = Pending \<and> expense_company_id e = companyId]"

text \<open>
  The handler from the result of its pending-row query on: 404 when the query returned no
  row, otherwise processApproval, whose errors the catch block answers with 500.
\<close>

definition process_pending ::
  "db \<Rightarrow> nat \<Rightarrow> nat \<Rightarrow> nat \<Rightarrow> action \<Rightarrow> string option \<Rightarrow> route_error + (db \<times> approval_result)" where
  "process_pending d userId companyId expenseId act comments =
     (if pendingApproval d expenseId userId companyId = [] then Inl NoPendingApproval
      else (case processApproval d expenseId userId act comments of
              Inl err \<Rightarrow> Inl ProcessFailed
            | Inr res \<Rightarrow> Inr res))"

text \<open>The whole handler: validation of the body, the pending-row query, the decision.\<close>

definition process_route ::
  "db \<Rightarrow> nat \<Rightarrow> nat \<Rightarrow> nat \<Rightarrow> action \<Rightarrow> string option \<Rightarrow> route_error + (db \<times> approval_result)" where
  "process_route d userId companyId expenseId act comments =
     (if \<not> comments_valid comments then Inl BadRequest
      else if \<not> integer_param expenseId then Inl ProcessFailed
      else process_pending d userId companyId expenseId act comments)"

section \<open>Notions used in the statements\<close>

text \<open>
  The database a caller sees after a call: the committed one on success, the one it had
  on failure (the transaction was rolled back, or nothing was written).
\<close>

definition db_after :: "db \<Rightarrow> 'e + (db \<times> 'r) \<Rightarrow> db" where
  "db_after d res = (case res of Inl err \<Rightarrow> d | Inr (d', r) \<Rightarrow> d')"

text \<open>
  A run of decisions: the approvers in the list decide one after the other, each approving
  the expense without a comment; each request has passed the validation of the body and
  names a stored expense, so the handler is at its pending-row query. The run stops at the
  first call that fails; otherwise it returns the last database and what each call
  returned.
\<close>

fun approve_in_order ::
  "db \<Rightarrow> nat \<Rightarrow> nat \<Rightarrow> nat list \<Rightarrow> route_error + (db \<times> approval_result list)" where
  "approve_in_order d companyId expenseId [] = Inr (d, [])"
| "approve_in_order d companyId expenseId (a # rest) =
     (case process_pending d a companyId expenseId Approve None of
        Inl err \<Rightarrow> Inl err
      | Inr (d', res) \<Rightarrow>
          (case approve_in_order d' companyId expenseId rest of
             Inl err \<Rightarrow> Inl err
           | Inr (d'', rs) \<Rightarrow> Inr (d'', res # rs)))"

text \<open>
  The rows one step of a sequential rule contributes: one Pending row for its approver when
  the step resolves to a truthy user id, none otherwise.
\<close>

definition step_rows :: "db \<Rightarrow> nat \<Rightarrow> approval_rule_step \<Rightarrow> expense_approval list" where
  "step_rows d expenseId step =
     (case step_approver d expenseId step of
        Inl err \<Rightarrow> []
      | Inr approverId \<Rightarrow>
          if truthy approverId then [new_approval_row expenseId approverId (step_order step)]
          else [])"

section \<open>Example configurations\<close>

text \<open>
  The two rules of the overlapping-range scenario: A (min 0, max 100, sequential) and
  B (min 0, max 1000, percentage 60), both active in company 1, with their
  \<open>sequence_order\<close> left open.
\<close>

definition scenario_rule_A :: "int \<Rightarrow> approval_rule" where
  "scenario_rule_A s =
     \<lparr>rule_id = 1, rule_company_id = 1, rule_type = Sequential,
      min_amount = Some 0, max_amount = Some 100, percentage_required = None,
      specific_approver_id = None, sequence_order = Some s, is_active = True\<rparr>"

definition scenario_rule_B :: "int \<Rightarrow> approval_rule" where
  "scenario_rule_B s =
     \<lparr>rule_id = 2, rule_company_id = 1, rule_type = Percentage,
      min_amount = Some 0, max_amount = Some 1000, percentage_required = Some 60,
      specific_approver_id = None, sequence_order = Some s, is_active = True\<rparr>"

definition rules_db :: "approval_rule list \<Rightarrow> db" where
  "rules_db rs =
     \<lparr>users = [], approval_rules = rs, approval_rule_steps = [], expenses = [],
      expense_approvals = [], notifications = []\<rparr>"

text \<open>
  A company as routes/auth.js creates it at signup (admin user 1 and the three default
  rules, none of which gets any step), with one manager, two employees and a pending expense
  of employee 3 that the rule 'Small Expenses' governs.
\<close>

definition small_expenses_rule :: approval_rule where
  "small_expenses_rule =
     \<lparr>rule_id = 1, rule_company_id = 1, rule_type = Sequential,
      min_amount = Some 0, max_amount = Some 100, percentage_required = None,
      specific_approver_id = None, sequence_order = Some 1, is_active = True\<rparr>"

definition medium_expenses_rule :: approval_rule where
  "medium_expenses_rule =
     \<lparr>rule_id = 2, rule_company_id = 1, rule_type = Sequential,
      min_amount = Some (10001 / 100), max_amount = Some 1000, percentage_required = None,
      specific_approver_id = None, sequence_order = Some 2, is_active = True\<rparr>"

definition large_expenses_rule :: approval_rule where
  "large_expenses_rule =
     \<lparr>rule_id = 3, rule_company_id = 1, rule_type = Percentage,
      min_amount = Some (100001 / 100), max_amount = None, percentage_required = None,
      specific_approver_id = None, sequence_order = Some 3, is_active = True\<rparr>"

definition company_users :: "user list" where
  "company_users =
     [\<lparr>user_id = 1, user_company_id = 1, role = Admin, manager_id = None, user_is_active = True\<rparr>,
      \<lparr>user_id = 2, user_company_id = 1, role = Manager, manager_id = None, user_is_active = True\<rparr>,
      \<lparr>user_id = 3, user_company_id = 1, role = Employee, manager_id = Some 2, user_is_active = True\<rparr>,
      \<lparr>user_id = 4, user_company_id = 1, role = Employee, manager_id = None, user_is_active = True\<rparr>]"

definition pending_expense :: "nat \<Rightarrow> nat \<Rightarrow> nat \<Rightarrow> expense" where
  "pending_expense eid uid rid =
     \<lparr>expense_id = eid, employee_id = uid, expense_company_id = 1,
      expense_status = Pending, approval_rule_id = Some rid\<rparr>"

definition signup_db :: db where
  "signup_db =
     \<lparr>users = company_users,
      approval_rules = [small_expenses_rule, medium_expenses_rule, large_expenses_rule],
      approval_rule_steps = [],
      expenses = [pending_expense 1 3 1],
      expense_approvals = [],
      notifications = []\<rparr>"

text \<open>Ledgers for the examples: one rule, expense 1 of employee 3 under it, and given rows.\<close>

definition percentage_rule :: "int \<Rightarrow> approval_rule" where
  "percentage_rule p =
     \<lparr>rule_id = 5, rule_company_id = 1, rule_type = Percentage,
      min_amount = Some 0, max_amount = None, percentage_required = Some p,
      specific_approver_id = None, sequence_order = Some 1, is_active = True\<rparr>"

definition hybrid_rule :: "int \<Rightarrow> nat \<Rightarrow> approval_rule" where
  "hybrid_rule p approver =
     \<lparr>rule_id = 6, rule_company_id = 1, rule_type = Hybrid,
      min_amount = Some 0, max_amount = None, percentage_required = Some p,
      specific_approver_id = Some approver, sequence_order = Some 1, is_active = True\<rparr>"

definition ledger_row :: "nat \<Rightarrow> status \<Rightarrow> nat \<Rightarrow> expense_approval" where
  "ledger_row eid s aid =
     \<lparr>ea_expense_id = eid, ea_approver_id = Some aid, ea_step_order = 1,
      ea_status = s, ea_comments = None\<rparr>"

definition ledger_db :: "approval_rule \<Rightarrow> expense_approval list \<Rightarrow> db" where
  "ledger_db r rows =
     \<lparr>users = company_users, approval_rules = [r], approval_rule_steps = [],
      expenses = [pending_expense 1 3 (rule_id r)],
      expense_approvals = rows, notifications = []\<rparr>"


text \<open>Expense 1 under a percentage rule of 50 with two Pending rows, and the database after admin 1 approved.\<close>

definition half_ledger_db :: db where
  "half_ledger_db =
     ledger_db (percentage_rule 50) [ledger_row 1 Pending 1, ledger_row 1 Pending 2]"

definition half_ledger_approved_db :: db where
  "half_ledger_approved_db =
     db_after half_ledger_db (process_route half_ledger_db 1 1 1 Approve None)"

text \<open>
  The sequential rule of the scenario, with its two steps (manager, then admin; neither
  step names a user), and expense 1 of employee 3, whose manager is user 2. User 1 is an
  active admin of the company.
\<close>

definition two_step_rule :: approval_rule where
  "two_step_rule =
     \<lparr>rule_id = 4, rule_company_id = 1, rule_type = Sequential,
      min_amount = Some 0, max_amount = Some 100, percentage_required = None,
      specific_approver_id = None, sequence_order = Some 1, is_active = True\<rparr>"

definition two_step_db :: db where
  "two_step_db =
     \<lparr>users = company_users, approval_rules = [two_step_rule],
      approval_rule_steps =
        [\<lparr>step_rule_id = 4, step_order = 1, approver_role = StepManager, approver_id = None\<rparr>,
         \<lparr>step_rule_id = 4, step_order = 2, approver_role = StepAdmin, approver_id = None\<rparr>],
      expenses = [pending_expense 1 3 4],
      expense_approvals = [], notifications = []\<rparr>"

text \<open>
  A company with fifty active managers (users 1 to 50) and employee 51, whose expense 1
  is under a percentage rule of 58: managers 1 to 28 have approved, 29 to 50 are Pending.
\<close>

definition fifty_db :: db where
  "fifty_db =
     \<lparr>users =
        map (\<lambda>i. \<lparr>user_id = i, user_company_id = 1, role = Manager, manager_id = None,
                   user_is_active = True\<rparr>) [1..<51]
        @ [\<lparr>user_id = 51, user_company_id = 1, role = Employee, manager_id = Some 1,
             user_is_active = True\<rparr>],
      approval_rules = [percentage_rule 58], approval_rule_steps = [],
      expenses = [pending_expense 1 51 5],
      expense_approvals =
        map (ledger_row 1 Approved) [1..<29] @ map (ledger_row 1 Pending) [29..<51],
      notifications = []\<rparr>"

text \<open>
  Two expenses under a hybrid rule of 60 percent whose specific approver is manager 2,
  each with the ledger createApprovalWorkflow builds (rows for users 1 and 2, and the
  specific approver's row); then the database after manager 2 approved expense 1.
\<close>

definition two_hybrid_db :: db where
  "two_hybrid_db =
     \<lparr>users = company_users, approval_rules = [hybrid_rule 60 2], approval_rule_steps = [],
      expenses = [pending_expense 1 3 6, pending_expense 2 4 6],
      expense_approvals =
        [ledger_row 1 Pending 1, ledger_row 1 Pending 2, ledger_row 1 Pending 2,
         ledger_row 2 Pending 1, ledger_row 2 Pending 2, ledger_row 2 Pending 2],
      notifications = []\<rparr>"

definition first_approved_db :: db where
  "first_approved_db =
     db_after two_hybrid_db (process_route two_hybrid_db 2 1 1 Approve None)"

text \<open>
  The sequential rule with three steps that name users 1, 2 and 5, and the ledger
  createApprovalWorkflow builds from it for expense 1.
\<close>

definition three_step_rule :: approval_rule where
  "three_step_rule =
     \<lparr>rule_id = 8, rule_company_id = 1, rule_type = Sequential,
      min_amount = Some 0, max_amount = None, percentage_required = None,
      specific_approver_id = None, sequence_order = Some 1, is_active = True\<rparr>"

definition three_step_db :: db where
  "three_step_db =
     \<lparr>users = company_users
        @ [\<lparr>user_id = 5, user_company_id = 1, role = Manager, manager_id = None,
             user_is_active = True\<rparr>],
      approval_rules = [three_step_rule],
      approval_rule_steps =
        [\<lparr>step_rule_id = 8, step_order = 1, approver_role = StepSpecificUser, approver_id = Some 2\<rparr>,
         \<lparr>step_rule_id = 8, step_order = 2, approver_role = StepSpecificUser, approver_id = Some 5\<rparr>,
         \<lparr>step_rule_id = 8, step_order = 3, approver_role = StepSpecificUser, approver_id = Some 1\<rparr>],
      expenses = [pending_expense 1 3 8],
      expense_approvals = [], notifications = []\<rparr>"

definition three_step_ledger_db :: db where
  "three_step_ledger_db =
     three_step_db\<lparr>expense_approvals :=
       [\<lparr>ea_expense_id = 1, ea_approver_id = Some 2, ea_step_order = 1,
         ea_status = Pending, ea_comments = None\<rparr>,
        \<lparr>ea_expense_id = 1, ea_approver_id = Some 5, ea_step_order = 2,
         ea_status = Pending, ea_comments = None\<rparr>,
        \<lparr>ea_expense_id = 1, ea_approver_id = Some 1, ea_step_order = 3,
         ea_status = Pending, ea_comments = None\<rparr>]\<rparr>"

text \<open>
  A company with five active managers (users 1 to 5) and employee 6, whose expense 1 is
  under a percentage rule of 60 with a Pending row for each manager.
\<close>

definition five_db :: db where
  "five_db =
     \<lparr>users =
        map (\<lambda>i. \<lparr>user_id = i, user_company_id = 1, role = Manager, manager_id = None,
                   user_is_active = True\<rparr>) [1..<6]
        @ [\<lparr>user_id = 6, user_company_id = 1, role = Employee, manager_id = Some 1,
             user_is_active = True\<rparr>],
      approval_rules = [percentage_rule 60], approval_rule_steps = [],
      expenses = [pending_expense 1 6 5],
      expense_approvals = map (ledger_row 1 Pending) [1..<6],
      notifications = []\<rparr>"

section \<open>Properties of ORDER BY and rule selection\<close>

text \<open>
  Sorting keeps the rows, puts no row before one that sorts strictly before it, and its
  first row is one that no row sorts strictly before. The comparison has to be asymmetric
  and negatively transitive, as a comparison of keys is.
\<close>

lemma set_insert_row: "set (insert_row before x ys) = insert x (set ys)"
  by (induction ys) auto

lemma set_order_by: "set (order_by before xs) = set xs"
  by (induction xs) (auto simp: set_insert_row)

lemma insert_row_not_Nil: "insert_row before x ys \<noteq> []"
  by (cases ys) auto

lemma order_by_Nil_iff: "order_by before xs = [] \<longleftrightarrow> xs = []"
  by (cases xs) (auto simp: insert_row_not_Nil)

lemma insert_row_head:
  "insert_row before x ys = r # rest \<Longrightarrow>
     r = x \<and> (\<forall>y rs. ys = y # rs \<longrightarrow> \<not> before y x) \<or> (\<exists>rs. ys = r # rs \<and> before r x)"
  by (cases ys) (auto split: if_splits)

lemma order_by_head_minimal:
  assumes asym: "\<And>a b. before a b \<Longrightarrow> \<not> before b a"
    and negtrans: "\<And>a b c. \<not> before a b \<Longrightarrow> \<not> before b c \<Longrightarrow> \<not> before a c"
  shows "order_by before xs = r # rest \<Longrightarrow> y \<in> set xs \<Longrightarrow> \<not> before y r"
proof (induction xs arbitrary: r rest y)
  case Nil
  then show ?case by simp
next
  case (Cons x xs)
  from Cons.prems(1) have ins: "insert_row before x (order_by before xs) = r # rest"
    by simp
  have irrefl: "\<not> before x x" for x
    using asym by blast
  from insert_row_head [OF ins] show ?case
  proof
    assume new: "r = x \<and> (\<forall>y rs. order_by before xs = y # rs \<longrightarrow> \<not> before y x)"
    show ?thesis
    proof (cases "y = x")
      case True
      with new irrefl show ?thesis by simp
    next
      case False
      with Cons.prems(2) have yin: "y \<in> set xs" by simp
      then have "order_by before xs \<noteq> []"
        by (auto simp: order_by_Nil_iff)
      then obtain h rs where h: "order_by before xs = h # rs"
        by (cases "order_by before xs") auto
      from Cons.IH [OF h yin] have "\<not> before y h" .
      moreover from new h have "\<not> before h x" by blast
      ultimately show ?thesis using negtrans new by blast
    qed
  next
    assume "\<exists>rs. order_by before xs = r # rs \<and> before r x"
    then obtain rs where old: "order_by before xs = r # rs" and bx: "before r x"
      by blast
    show ?thesis
    proof (cases "y = x")
      case True
      with bx asym show ?thesis by blast
    next
      case False
      with Cons.prems(2) have "y \<in> set xs" by simp
      from Cons.IH [OF old this] show ?thesis .
    qed
  qed
qed

lemma sorted_insert_row:
  assumes asym: "\<And>a b. before a b \<Longrightarrow> \<not> before b a"
    and negtrans: "\<And>a b c. \<not> before a b \<Longrightarrow> \<not> before b c \<Longrightarrow> \<not> before a c"
  shows "sorted_wrt (\<lambda>a b. \<not> before b a) ys \<Longrightarrow> sorted_wrt (\<lambda>a b. \<not> before b a) (insert_row before x ys)"
proof (induction ys)
  case Nil
  then show ?case by simp
next
  case (Cons y ys)
  show ?case
  proof (cases "before y x")
    case True
    with Cons asym show ?thesis
      by (auto simp: set_insert_row)
  next
    case False
    have "\<not> before z x" if "z \<in> set ys" for z
    proof -
      from Cons.prems that have "\<not> before z y" by simp
      from negtrans [OF this False] show ?thesis .
    qed
    with False Cons.prems show ?thesis by simp
  qed
qed

lemma sorted_order_by:
  assumes "\<And>a b. before a b \<Longrightarrow> \<not> before b a"
    and "\<And>a b c. \<not> before a b \<Longrightarrow> \<not> before b c \<Longrightarrow> \<not> before a c"
  shows "sorted_wrt (\<lambda>a b. \<not> before b a) (order_by before xs)"
proof (induction xs)
  case Nil
  then show ?case by simp
next
  case (Cons x xs)
  from sorted_insert_row [of before "order_by before xs" x, OF assms Cons.IH]
  show ?case by simp
qed

lemma min_amount_before_asym: "min_amount_before a b \<Longrightarrow> \<not> min_amount_before b a"
  by (cases a; cases b) auto

lemma sequence_order_before_asym: "sequence_order_before a b \<Longrightarrow> \<not> sequence_order_before b a"
  by (cases a; cases b) auto

lemma min_amount_before_negtrans:
  "\<not> min_amount_before a b \<Longrightarrow> \<not> min_amount_before b c \<Longrightarrow> \<not> min_amount_before a c"
  by (cases a; cases b; cases c) auto

lemma sequence_order_before_negtrans:
  "\<not> sequence_order_before a b \<Longrightarrow> \<not> sequence_order_before b c \<Longrightarrow> \<not> sequence_order_before a c"
  by (cases a; cases b; cases c) auto

lemma min_amount_total: "\<not> min_amount_before a b \<Longrightarrow> \<not> min_amount_before b a \<Longrightarrow> a = b"
  by (cases a; cases b) auto

lemma rule_before_asym: "rule_before a b \<Longrightarrow> \<not> rule_before b a"
  unfolding rule_before_def
  by (metis min_amount_before_asym sequence_order_before_asym)

lemma rule_before_negtrans:
  "\<not> rule_before a b \<Longrightarrow> \<not> rule_before b c \<Longrightarrow> \<not> rule_before a c"
  unfolding rule_before_def
  by (metis min_amount_before_negtrans sequence_order_before_negtrans min_amount_total
      min_amount_before_asym)

text \<open>
  The rule returned by getApplicableRule, in terms of the table.
\<close>

lemma getApplicableRule_None_iff:
  "getApplicableRule d amount cid = None \<longleftrightarrow>
     (\<forall>r \<in> set (approval_rules d). \<not> rule_matches amount cid r)"
proof -
  have "getApplicableRule d amount cid = None \<longleftrightarrow>
          order_by rule_before (filter (rule_matches amount cid) (approval_rules d)) = []"
    by (simp add: getApplicableRule_def split: list.splits)
  then show ?thesis
    by (simp add: order_by_Nil_iff filter_empty_conv)
qed

lemma getApplicableRule_Some_best:
  assumes "getApplicableRule d amount cid = Some r"
  shows "r \<in> set (approval_rules d) \<and> rule_matches amount cid r
         \<and> (\<forall>r' \<in> set (approval_rules d). rule_matches amount cid r' \<longrightarrow> \<not> rule_before r' r)"
proof -
  let ?ms = "filter (rule_matches amount cid) (approval_rules d)"
  from assms obtain rest where sorted: "order_by rule_before ?ms = r # rest"
    by (auto simp: getApplicableRule_def split: list.splits)
  then have "r \<in> set (order_by rule_before ?ms)" by simp
  then have rin: "r \<in> set ?ms" by (simp only: set_order_by)
  have best: "\<not> rule_before r' r" if "r' \<in> set ?ms" for r'
    using order_by_head_minimal [of rule_before ?ms r rest r'] rule_before_asym
      rule_before_negtrans sorted that by blast
  from rin best show ?thesis by simp
qed

lemma rule_before_explicit:
  assumes "\<not> rule_before r' r" "min_amount r = Some lo" "min_amount r' = Some lo'"
  shows "lo' \<le> lo \<and> (lo' = lo \<longrightarrow>
           (\<forall>s s'. sequence_order r = Some s \<and> sequence_order r' = Some s' \<longrightarrow> s \<le> s'))"
  using assms by (auto simp: rule_before_def)


section \<open>Properties of processApproval\<close>

text \<open>
  What the two UPDATE statements of processApproval touch, and how primary-key lookups see
  them.
\<close>

lemma update_approvals_tables [simp]:
  "expenses (update_approvals d eid aid act cm) = expenses d"
  "approval_rules (update_approvals d eid aid act cm) = approval_rules d"
  "users (update_approvals d eid aid act cm) = users d"
  "notifications (update_approvals d eid aid act cm) = notifications d"
  "expense_approvals (update_approvals d eid aid act cm)
     = map (decide_row eid aid act cm) (expense_approvals d)"
  by (simp_all add: update_approvals_def)

lemma find_update_approvals [simp]:
  "find_expense (update_approvals d eid aid act cm) x = find_expense d x"
  "find_rule (update_approvals d eid aid act cm) y = find_rule d y"
  by (simp_all add: find_expense_def find_rule_def)

lemma update_expense_status_tables [simp]:
  "expense_approvals (update_expense_status d eid s) = expense_approvals d"
  "approval_rules (update_expense_status d eid s) = approval_rules d"
  "users (update_expense_status d eid s) = users d"
  "notifications (update_expense_status d eid s) = notifications d"
  "expenses (update_expense_status d eid s) = map (set_expense_status eid s) (expenses d)"
  by (simp_all add: update_expense_status_def)

lemma expense_id_set_status [simp]: "expense_id (set_expense_status eid s e) = expense_id e"
  by (simp add: set_expense_status_def)

lemma set_expense_status_hit: "expense_id e = eid \<Longrightarrow> set_expense_status eid s e = e\<lparr>expense_status := s\<rparr>"
  by (simp add: set_expense_status_def)

lemma find_status_map:
  "find (\<lambda>e. expense_id e = x) (map (set_expense_status eid s) es)
   = map_option (set_expense_status eid s) (find (\<lambda>e. expense_id e = x) es)"
  by (induction es) simp_all

lemma find_expense_update_status:
  "find_expense (update_expense_status d eid s) x
   = map_option (set_expense_status eid s) (find_expense d x)"
  by (simp add: find_expense_def find_status_map)

lemma find_expense_id: "find_expense d eid = Some e \<Longrightarrow> expense_id e = eid"
  by (auto simp: find_expense_def find_Some_iff)

lemma find_expense_in_set: "find_expense d eid = Some e \<Longrightarrow> e \<in> set (expenses d)"
  by (auto simp: find_expense_def find_Some_iff)



lemma in_set_map_fixed: "x \<in> set xs \<Longrightarrow> f x = x \<Longrightarrow> x \<in> set (map f xs)"
  by (induction xs) auto

lemma decide_row_other: "ea_approver_id row \<noteq> Some aid \<Longrightarrow> decide_row eid aid act cm row = row"
  by (simp add: decide_row_def)


text \<open>
  processApproval as a function of what shouldUpdateExpenseStatus returns.
\<close>

lemma processApproval_Update:
  assumes "shouldUpdateExpenseStatus (update_approvals d eid aid act cm) eid act = Inr (Update s)"
    and "find_expense d eid = Some e"
  shows "processApproval d eid aid act cm =
           Inr ((update_expense_status (update_approvals d eid aid act cm) eid s)
                  \<lparr>notifications := notifications d @
                     [\<lparr>n_user_id = employee_id e, n_expense_id = eid,
                       n_type = ''expense_status_update'',
                       n_title = ''Expense '' @ status_name s,
                       n_message = ''Your expense has been '' @ status_name s\<rparr>]\<rparr>,
                Update s)"
  using assms find_expense_id [OF assms(2)]
  by (simp add: processApproval_def Let_def find_expense_update_status set_expense_status_def)

lemma processApproval_NoUpdate:
  assumes "shouldUpdateExpenseStatus (update_approvals d eid aid act cm) eid act = Inr NoUpdate"
  shows "processApproval d eid aid act cm = Inr (update_approvals d eid aid act cm, NoUpdate)"
  using assms by (simp add: processApproval_def Let_def)


text \<open>
  The guard of the route: the rows its query returns.
\<close>

lemma set_pendingApproval:
  "set (pendingApproval d eid uid cid) =
     {ea \<in> set (expense_approvals d). \<exists>e \<in> set (expenses d).
          ea_expense_id ea = expense_id e \<and> ea_expense_id ea = eid
          \<and> ea_approver_id ea = Some uid \<and> ea_status ea = Pending
          \<and> expense_company_id e = cid}"
  unfolding pendingApproval_def by (auto split: if_splits)

lemma pendingApproval_Nil_iff:
  "pendingApproval d eid uid cid = [] \<longleftrightarrow>
     \<not> (\<exists>ea \<in> set (expense_approvals d). \<exists>e \<in> set (expenses d).
          ea_expense_id ea = expense_id e \<and> ea_expense_id ea = eid
          \<and> ea_approver_id ea = Some uid \<and> ea_status ea = Pending
          \<and> expense_company_id e = cid)"
proof -
  have "pendingApproval d eid uid cid = [] \<longleftrightarrow> set (pendingApproval d eid uid cid) = {}"
    by simp
  then show ?thesis
    unfolding set_pendingApproval by blast
qed







text \<open>
  For a body that passes validation and an expense id in the INTEGER range, the handler is
  its part from the pending-row query on.
\<close>

lemma process_route_accepted:
  "comments_valid cm \<Longrightarrow> integer_param eid \<Longrightarrow>
     process_route d uid cid eid act cm = process_pending d uid cid eid act cm"
  by (simp add: process_route_def)

lemma process_route_without_comment:
  "integer_param eid \<Longrightarrow>
     process_route d uid cid eid act None = process_pending d uid cid eid act None"
  by (simp add: process_route_def comments_valid_def)




section \<open>Properties of workflow construction\<close>

text \<open>
  The loop of createSequentialApprovals appends, in the order of the steps, the rows of
  the steps that resolve to an approver, and skips the others; it fails only on a missing
  expense or on an approver that is no user.
\<close>

lemma insert_expense_approval_tables:
  assumes "insert_expense_approval d eid a ord = Inr d'"
  shows "d' = d\<lparr>expense_approvals := expense_approvals d @ [new_approval_row eid a ord]\<rparr>"
  using assms by (auto simp: insert_expense_approval_def split: if_splits)

lemma find_after_append [simp]:
  "find_expense (d\<lparr>expense_approvals := rows\<rparr>) x = find_expense d x"
  "find_user (d\<lparr>expense_approvals := rows\<rparr>) u = find_user d u"
  "find_rule (d\<lparr>expense_approvals := rows\<rparr>) y = find_rule d y"
  by (simp_all add: find_expense_def find_user_def find_rule_def)

lemma step_approver_append [simp]:
  "step_approver (d\<lparr>expense_approvals := rows\<rparr>) eid step = step_approver d eid step"
  by (simp add: step_approver_def split: option.splits)

lemma step_rows_append [simp]:
  "step_rows (d\<lparr>expense_approvals := rows\<rparr>) eid step = step_rows d eid step"
  by (simp add: step_rows_def)

lemma step_approver_total:
  "find_expense d eid = Some e \<Longrightarrow> \<exists>a. step_approver d eid step = Inr a"
  by (simp add: step_approver_def)

lemma sequential_steps_rows:
  assumes "find_expense d eid = Some e"
    and "\<forall>step \<in> set steps. \<forall>a. step_approver d eid step = Inr (Some a) \<longrightarrow> a \<noteq> 0
           \<longrightarrow> find_user d a \<noteq> None"
  shows "sequential_steps d eid steps
           = Inr (d\<lparr>expense_approvals := expense_approvals d @ concat (map (step_rows d eid) steps)\<rparr>)"
  using assms
proof (induction steps arbitrary: d)
  case Nil
  then show ?case by simp
next
  case (Cons step rest)
  from step_approver_total [OF Cons.prems(1)]
  obtain a where a: "step_approver d eid step = Inr a" by blast
  show ?case
  proof (cases "truthy a")
    case False
    have rows: "step_rows d eid step = []"
      using a False by (simp add: step_rows_def)
    have "\<forall>s \<in> set rest. \<forall>a. step_approver d eid s = Inr (Some a) \<longrightarrow> a \<noteq> 0
           \<longrightarrow> find_user d a \<noteq> None"
      using Cons.prems(2) by simp
    from Cons.IH [OF Cons.prems(1) this] a False rows show ?thesis by simp
  next
    case True
    then obtain u where u: "a = Some u" "u \<noteq> 0" by (cases a) auto
    with a Cons.prems(2) have user: "find_user d u \<noteq> None" by simp
    let ?d1 = "d\<lparr>expense_approvals := expense_approvals d @ [new_approval_row eid a (step_order step)]\<rparr>"
    have ins: "insert_expense_approval d eid a (step_order step) = Inr ?d1"
      using Cons.prems(1) user u by (simp add: insert_expense_approval_def)
    have rows: "step_rows d eid step = [new_approval_row eid a (step_order step)]"
      using a True by (simp add: step_rows_def)
    have e1: "find_expense ?d1 eid = Some e" using Cons.prems(1) by simp
    have u1: "\<forall>s \<in> set rest. \<forall>a. step_approver ?d1 eid s = Inr (Some a) \<longrightarrow> a \<noteq> 0
           \<longrightarrow> find_user ?d1 a \<noteq> None"
      using Cons.prems(2) by simp
    from Cons.IH [OF e1 u1]
    have "sequential_steps ?d1 eid rest
           = Inr (d\<lparr>expense_approvals := expense_approvals d
                    @ new_approval_row eid a (step_order step) # concat (map (step_rows d eid) rest)\<rparr>)"
      by simp
    with a True ins rows show ?thesis by simp
  qed
qed

text \<open>
  The steps it runs over are those of the rule, in ascending step order. A step resolves
  to the manager of the expense's employee when its role is 'manager', and to its own
  \<open>approver_id\<close> for every other role.
\<close>

lemma sorted_rule_steps:
  "set (rule_steps d rid) = {s \<in> set (approval_rule_steps d). step_rule_id s = rid}"
  by (auto simp: rule_steps_def set_order_by)

lemma step_rows_cases:
  assumes "find_expense d eid = Some e"
  shows "step_rows d eid step =
     (let approver =
            (if approver_role step = StepManager
             then (case find_user d (employee_id e) of None \<Rightarrow> None | Some u \<Rightarrow> manager_id u)
             else approver_id step)
      in if truthy approver then [new_approval_row eid approver (step_order step)] else [])"
  using assms by (simp add: step_rows_def step_approver_def Let_def)

text \<open>
  For an expense id that the database does not hold, createApprovalWorkflow creates no
  row: it fails, or commits nothing.
\<close>

lemma createApprovalWorkflow_unseen_expense:
  assumes "find_expense d eid = None"
  shows "createApprovalWorkflow d eid rid = Inr d \<or> (\<exists>err. createApprovalWorkflow d eid rid = Inl err)"
proof -
  have ins: "insert_expense_approval d eid a ord = Inl ForeignKeyViolation" for a ord
    using assms by (simp add: insert_expense_approval_def)
  have seq: "sequential_steps d eid steps = Inr d \<or> (\<exists>err. sequential_steps d eid steps = Inl err)"
    for steps
  proof (induction steps)
    case Nil
    then show ?case by simp
  next
    case (Cons step rest)
    then show ?case
      using ins by (auto split: sum.splits)
  qed
  show ?thesis
    using seq [of "rule_steps d rid"] ins assms
    by (auto simp: createApprovalWorkflow_def createSequentialApprovals_def
        createPercentageApprovals_def createHybridApprovals_def
        createSpecificApproverApproval_def split: option.splits rule_kind.splits)
qed

lemma rule_steps_sorted:
  "sorted_wrt (\<lambda>a b. step_order a \<le> step_order b) (rule_steps d rid)"
proof -
  have "sorted_wrt (\<lambda>a b. \<not> step_order b < step_order a) (rule_steps d rid)"
    unfolding rule_steps_def
    by (rule sorted_order_by) auto
  then show ?thesis by (simp add: not_less)
qed

lemma createApprovalWorkflow_sequential_rows:
  assumes "find_rule d rid = Some r" "rule_type r = Sequential"
    and "find_expense d eid = Some e"
    and "\<forall>step \<in> set (approval_rule_steps d). \<forall>a. step_rule_id step = rid
           \<longrightarrow> step_approver d eid step = Inr (Some a) \<longrightarrow> a \<noteq> 0 \<longrightarrow> find_user d a \<noteq> None"
  shows "createApprovalWorkflow d eid rid
           = Inr (d\<lparr>expense_approvals := expense_approvals d
                    @ concat (map (step_rows d eid) (rule_steps d rid))\<rparr>)"
proof -
  have "\<forall>step \<in> set (rule_steps d rid). \<forall>a. step_approver d eid step = Inr (Some a) \<longrightarrow> a \<noteq> 0
           \<longrightarrow> find_user d a \<noteq> None"
    using assms(4) unfolding sorted_rule_steps by blast
  from sequential_steps_rows [OF assms(3) this] assms(1,2) show ?thesis
    by (simp add: createApprovalWorkflow_def createSequentialApprovals_def)
qed

text \<open>
  A missing rule, and a rule without steps.
\<close>

lemma createApprovalWorkflow_rule_missing:
  "find_rule d rid = None \<Longrightarrow> createApprovalWorkflow d eid rid = Inl RuleNotFound"
  by (simp add: createApprovalWorkflow_def)

lemma rule_steps_empty:
  "\<forall>s \<in> set (approval_rule_steps d). step_rule_id s \<noteq> rid \<Longrightarrow> rule_steps d rid = []"
  by (simp add: rule_steps_def order_by_Nil_iff filter_empty_conv)


section \<open>Properties of the sequential check\<close>

text \<open>
  checkSequentialApproval by cases on the statuses of the rows of the expense.
\<close>

lemma ea_expense_id_decide_row [simp]:
  "ea_expense_id (decide_row eid aid act cm r) = ea_expense_id r"
  by (simp add: decide_row_def)

lemma expense_rows_update_approvals:
  "expense_rows (update_approvals d eid aid act cm) x
     = map (decide_row eid aid act cm) (expense_rows d x)"
  by (simp add: expense_rows_def filter_map comp_def)

lemma expense_rows_update_status [simp]:
  "expense_rows (update_expense_status d eid s) x = expense_rows d x"
  by (simp add: expense_rows_def)

lemma checkSequentialApproval_cases:
  "checkSequentialApproval d eid =
     (if \<exists>row \<in> set (expense_rows d eid). ea_status row = Rejected then Update Rejected
      else if \<forall>row \<in> set (expense_rows d eid). ea_status row = Approved then Update Approved
      else NoUpdate)"
  by (simp add: checkSequentialApproval_def Let_def list_all_iff list_ex_iff set_order_by)

lemma checkSequentialApproval_Approved_iff:
  "checkSequentialApproval d eid = Update Approved
     \<longleftrightarrow> (\<forall>row \<in> set (expense_rows d eid). ea_status row = Approved)"
proof (cases "\<exists>row \<in> set (expense_rows d eid). ea_status row = Rejected")
  case True
  then obtain row where "row \<in> set (expense_rows d eid)" "ea_status row = Rejected" by blast
  then have "\<not> (\<forall>row \<in> set (expense_rows d eid). ea_status row = Approved)"
    by (metis status.distinct(7))
  with True show ?thesis by (simp add: checkSequentialApproval_cases)
next
  case False
  then show ?thesis by (simp add: checkSequentialApproval_cases)
qed

lemma shouldUpdate_Sequential:
  assumes "find_expense d eid = Some e" "approval_rule_id e = Some rid"
    "find_rule d rid = Some r" "rule_type r = Sequential"
  shows "shouldUpdateExpenseStatus d eid Approve = Inr (checkSequentialApproval d eid)"
  using assms by (simp add: shouldUpdateExpenseStatus_def)

lemma decide_row_Approve_status:
  "ea_status (decide_row eid a Approve cm row) =
     (if ea_expense_id row = eid \<and> ea_approver_id row = Some a \<and> ea_status row = Pending
      then Approved else ea_status row)"
  by (simp add: decide_row_def)

lemma ea_approver_id_decide_row [simp]:
  "ea_approver_id (decide_row eid aid act cm r) = ea_approver_id r"
  by (simp add: decide_row_def)

lemma expense_rows_eid: "row \<in> set (expense_rows d eid) \<Longrightarrow> ea_expense_id row = eid"
  by (simp add: expense_rows_def)

lemma expense_rows_subset: "row \<in> set (expense_rows d eid) \<Longrightarrow> row \<in> set (expense_approvals d)"
  by (simp add: expense_rows_def)
text \<open>
  One approval under a sequential rule: while another approver still holds a Pending row
  it changes the ledger only; when all other rows are Approved it closes the expense.
\<close>

lemma approve_step_not_last:
  assumes e: "find_expense d eid = Some e" "approval_rule_id e = Some rid" "expense_company_id e = cid"
    and r: "find_rule d rid = Some r" "rule_type r = Sequential"
    and noRej: "\<forall>row \<in> set (expense_rows d eid). ea_status row \<noteq> Rejected"
    and mine: "\<exists>row \<in> set (expense_rows d eid). ea_approver_id row = Some a \<and> ea_status row = Pending"
    and other: "\<exists>row \<in> set (expense_rows d eid). ea_approver_id row \<noteq> Some a \<and> ea_status row = Pending"
  shows "process_pending d a cid eid Approve None = Inr (update_approvals d eid a Approve None, NoUpdate)"
proof -
  let ?d1 = "update_approvals d eid a Approve None"
  have rows1: "expense_rows ?d1 eid = map (decide_row eid a Approve None) (expense_rows d eid)"
    by (rule expense_rows_update_approvals)
  have noRej1: "\<not> (\<exists>row \<in> set (expense_rows ?d1 eid). ea_status row = Rejected)"
  proof
    assume "\<exists>row \<in> set (expense_rows ?d1 eid). ea_status row = Rejected"
    then obtain row0 where row0: "row0 \<in> set (expense_rows d eid)"
      and "ea_status (decide_row eid a Approve None row0) = Rejected"
      unfolding rows1 by auto
    then have "ea_status row0 = Rejected"
      by (simp add: decide_row_Approve_status split: if_splits)
    with noRej row0 show False by blast
  qed
  from other obtain row1 where row1: "row1 \<in> set (expense_rows d eid)"
    "ea_approver_id row1 \<noteq> Some a" "ea_status row1 = Pending" by blast
  have "decide_row eid a Approve None row1 = row1"
    using row1(2) by (rule decide_row_other)
  with row1(1) have "row1 \<in> set (expense_rows ?d1 eid)"
    unfolding rows1 by (metis in_set_map_fixed)
  with row1(3) have notAll: "\<not> (\<forall>row \<in> set (expense_rows ?d1 eid). ea_status row = Approved)"
    by (metis status.distinct(1))
  have chk: "checkSequentialApproval ?d1 eid = NoUpdate"
    using noRej1 notAll by (simp add: checkSequentialApproval_cases)
  have "shouldUpdateExpenseStatus ?d1 eid Approve = Inr (checkSequentialApproval ?d1 eid)"
    using e r by (intro shouldUpdate_Sequential) simp_all
  with chk have "shouldUpdateExpenseStatus ?d1 eid Approve = Inr NoUpdate" by simp
  from processApproval_NoUpdate [OF this]
  have run: "processApproval d eid a Approve None = Inr (?d1, NoUpdate)" .
  from mine obtain row where row: "row \<in> set (expense_rows d eid)"
    "ea_approver_id row = Some a" "ea_status row = Pending" by blast
  have "pendingApproval d eid a cid \<noteq> []"
    unfolding pendingApproval_Nil_iff
    using row e find_expense_in_set [OF e(1)] find_expense_id [OF e(1)]
      expense_rows_eid [OF row(1)] expense_rows_subset [OF row(1)]
    by blast
  with run show ?thesis by (simp add: process_pending_def)
qed

lemma approve_step_last:
  assumes e: "find_expense d eid = Some e" "approval_rule_id e = Some rid" "expense_company_id e = cid"
    and r: "find_rule d rid = Some r" "rule_type r = Sequential"
    and mine: "\<exists>row \<in> set (expense_rows d eid). ea_approver_id row = Some a \<and> ea_status row = Pending"
    and rest: "\<forall>row \<in> set (expense_rows d eid).
                 ea_status row = Approved \<or> (ea_status row = Pending \<and> ea_approver_id row = Some a)"
  shows "\<exists>d'. process_pending d a cid eid Approve None = Inr (d', Update Approved)
          \<and> find_expense d' eid = Some (e\<lparr>expense_status := Approved\<rparr>)
          \<and> (\<forall>row \<in> set (expense_rows d' eid). ea_status row = Approved)"
proof -
  let ?d1 = "update_approvals d eid a Approve None"
  let ?d2 = "update_expense_status ?d1 eid Approved"
  have rows1: "expense_rows ?d1 eid = map (decide_row eid a Approve None) (expense_rows d eid)"
    by (rule expense_rows_update_approvals)
  have all1: "\<forall>row \<in> set (expense_rows ?d1 eid). ea_status row = Approved"
  proof
    fix row assume "row \<in> set (expense_rows ?d1 eid)"
    then obtain row0 where row0: "row0 \<in> set (expense_rows d eid)"
      and row: "row = decide_row eid a Approve None row0"
      unfolding rows1 by auto
    from rest row0 expense_rows_eid [OF row0] show "ea_status row = Approved"
      unfolding row by (auto simp: decide_row_Approve_status)
  qed
  then have chk: "checkSequentialApproval ?d1 eid = Update Approved"
    by (simp add: checkSequentialApproval_Approved_iff)
  have "shouldUpdateExpenseStatus ?d1 eid Approve = Inr (checkSequentialApproval ?d1 eid)"
    using e r by (intro shouldUpdate_Sequential) simp_all
  with chk have "shouldUpdateExpenseStatus ?d1 eid Approve = Inr (Update Approved)" by simp
  from processApproval_Update [OF this e(1)]
  obtain d' where run: "processApproval d eid a Approve None = Inr (d', Update Approved)"
    and ex: "expenses d' = expenses ?d2"
    and ap: "expense_approvals d' = expense_approvals ?d1"
    by simp
  have "find_expense d' eid = find_expense ?d2 eid"
    by (simp add: find_expense_def ex)
  then have f: "find_expense d' eid = Some (e\<lparr>expense_status := Approved\<rparr>)"
    using e(1) find_expense_id [OF e(1)]
    by (simp add: find_expense_update_status set_expense_status_hit)
  have "expense_rows d' eid = expense_rows ?d1 eid"
    by (simp add: expense_rows_def ap)
  with all1 have all': "\<forall>row \<in> set (expense_rows d' eid). ea_status row = Approved"
    by simp
  from mine obtain row where row: "row \<in> set (expense_rows d eid)"
    "ea_approver_id row = Some a" "ea_status row = Pending" by blast
  have "pendingApproval d eid a cid \<noteq> []"
    unfolding pendingApproval_Nil_iff
    using row e find_expense_in_set [OF e(1)] find_expense_id [OF e(1)]
      expense_rows_eid [OF row(1)] expense_rows_subset [OF row(1)]
    by blast
  with run have "process_pending d a cid eid Approve None = Inr (d', Update Approved)"
    by (simp add: process_pending_def)
  with f all' show ?thesis by blast
qed

lemma processApproval_Sequential_Approved_iff:
  assumes "find_expense d eid = Some e" "approval_rule_id e = Some rid"
    "find_rule d rid = Some r" "rule_type r = Sequential"
  shows "(\<exists>d'. processApproval d eid a Approve cm = Inr (d', Update Approved))
           \<longleftrightarrow> (\<forall>row \<in> set (expense_rows (update_approvals d eid a Approve cm) eid).
                  ea_status row = Approved)"
proof -
  let ?d1 = "update_approvals d eid a Approve cm"
  have sh: "shouldUpdateExpenseStatus ?d1 eid Approve = Inr (checkSequentialApproval ?d1 eid)"
    using assms by (intro shouldUpdate_Sequential) simp_all
  have "(\<exists>d'. processApproval d eid a Approve cm = Inr (d', Update Approved))
          \<longleftrightarrow> checkSequentialApproval ?d1 eid = Update Approved"
  proof (cases "checkSequentialApproval ?d1 eid")
    case NoUpdate
    with sh processApproval_NoUpdate [of d eid a Approve cm] show ?thesis by simp
  next
    case (Update s)
    with sh processApproval_Update [of d eid a Approve cm s e] assms(1) show ?thesis by auto
  qed
  then show ?thesis by (simp only: checkSequentialApproval_Approved_iff)
qed

text \<open>
  A run of approvals, by induction on the list of approvers. The invariant: every row of
  the expense is Approved or is Pending and belongs to an approver still to come, and
  every approver still to come holds a Pending row.
\<close>

lemma approve_in_order_sequential:
  assumes e: "find_expense d eid = Some e" "approval_rule_id e = Some rid" "expense_company_id e = cid"
    and r: "find_rule d rid = Some r" "rule_type r = Sequential"
    and as: "distinct as" "as \<noteq> []"
    and inv1: "\<forall>row \<in> set (expense_rows d eid).
                 ea_status row = Approved
                 \<or> (ea_status row = Pending \<and> (\<exists>a \<in> set as. ea_approver_id row = Some a))"
    and inv2: "\<forall>a \<in> set as. \<exists>row \<in> set (expense_rows d eid).
                 ea_approver_id row = Some a \<and> ea_status row = Pending"
  shows "\<exists>d'. approve_in_order d cid eid as
                 = Inr (d', replicate (length as - 1) NoUpdate @ [Update Approved])
          \<and> find_expense d' eid = Some (e\<lparr>expense_status := Approved\<rparr>)
          \<and> (\<forall>row \<in> set (expense_rows d' eid). ea_status row = Approved)"
  using e(1) r(1) as inv1 inv2
proof (induction as arbitrary: d)
  case Nil
  then show ?case by simp
next
  case (Cons a rest)
  note ex = \<open>find_expense d eid = Some e\<close>
  note rl = \<open>find_rule d rid = Some r\<close>
  have mine: "\<exists>row \<in> set (expense_rows d eid). ea_approver_id row = Some a \<and> ea_status row = Pending"
    using Cons.prems(6) by simp
  show ?case
  proof (cases "rest = []")
    case True
    have "\<forall>row \<in> set (expense_rows d eid).
            ea_status row = Approved \<or> (ea_status row = Pending \<and> ea_approver_id row = Some a)"
      using Cons.prems(5) True by simp
    from approve_step_last [OF ex e(2,3) rl r(2) mine this]
    obtain d' where "process_pending d a cid eid Approve None = Inr (d', Update Approved)"
      and "find_expense d' eid = Some (e\<lparr>expense_status := Approved\<rparr>)"
      and "\<forall>row \<in> set (expense_rows d' eid). ea_status row = Approved"
      by blast
    with True show ?thesis by simp
  next
    case False
    let ?d1 = "update_approvals d eid a Approve None"
    from False obtain b where b: "b \<in> set rest" by (cases rest) auto
    with Cons.prems(3) have ba: "b \<noteq> a" by auto
    from Cons.prems(6) b obtain rowb where rowb: "rowb \<in> set (expense_rows d eid)"
      "ea_approver_id rowb = Some b" "ea_status rowb = Pending" by auto
    from ba rowb(2) have "ea_approver_id rowb \<noteq> Some a" by simp
    with rowb(1,3) have other: "\<exists>row \<in> set (expense_rows d eid).
        ea_approver_id row \<noteq> Some a \<and> ea_status row = Pending"
      by blast
    have noRej: "\<forall>row \<in> set (expense_rows d eid). ea_status row \<noteq> Rejected"
      using Cons.prems(5) by auto
    from approve_step_not_last [OF ex e(2,3) rl r(2) noRej mine other]
    have step: "process_pending d a cid eid Approve None = Inr (?d1, NoUpdate)" .
    have rows1: "expense_rows ?d1 eid = map (decide_row eid a Approve None) (expense_rows d eid)"
      by (rule expense_rows_update_approvals)
    have ex1: "find_expense ?d1 eid = Some e" using ex by simp
    have rl1: "find_rule ?d1 rid = Some r" using rl by simp
    have d1: "distinct rest" using Cons.prems(3) by simp
    have inv1': "\<forall>row \<in> set (expense_rows ?d1 eid).
                 ea_status row = Approved
                 \<or> (ea_status row = Pending \<and> (\<exists>a \<in> set rest. ea_approver_id row = Some a))"
    proof
      fix row assume "row \<in> set (expense_rows ?d1 eid)"
      then obtain row0 where row0: "row0 \<in> set (expense_rows d eid)"
        and row: "row = decide_row eid a Approve None row0"
        unfolding rows1 by auto
      from Cons.prems(5) row0
      have c: "ea_status row0 = Approved
           \<or> (ea_status row0 = Pending \<and> (\<exists>x \<in> set (a # rest). ea_approver_id row0 = Some x))"
        by blast
      show "ea_status row = Approved
                 \<or> (ea_status row = Pending \<and> (\<exists>a \<in> set rest. ea_approver_id row = Some a))"
        using c expense_rows_eid [OF row0] unfolding row
        by (auto simp: decide_row_Approve_status)
    qed
    have inv2': "\<forall>x \<in> set rest. \<exists>row \<in> set (expense_rows ?d1 eid).
                 ea_approver_id row = Some x \<and> ea_status row = Pending"
    proof
      fix x assume x: "x \<in> set rest"
      with Cons.prems(3) have xa: "x \<noteq> a" by auto
      from Cons.prems(6) x obtain row where row: "row \<in> set (expense_rows d eid)"
        "ea_approver_id row = Some x" "ea_status row = Pending" by auto
      from xa row(2) have "ea_approver_id row \<noteq> Some a" by simp
      then have "decide_row eid a Approve None row = row" by (rule decide_row_other)
      with row(1) have "row \<in> set (expense_rows ?d1 eid)"
        unfolding rows1 by (metis in_set_map_fixed)
      with row(2,3) show "\<exists>row \<in> set (expense_rows ?d1 eid).
                 ea_approver_id row = Some x \<and> ea_status row = Pending"
        by blast
    qed
    from Cons.IH [OF ex1 rl1 d1 False inv1' inv2']
    obtain d' where run: "approve_in_order ?d1 cid eid rest
                 = Inr (d', replicate (length rest - 1) NoUpdate @ [Update Approved])"
      and fin: "find_expense d' eid = Some (e\<lparr>expense_status := Approved\<rparr>)"
      and all: "\<forall>row \<in> set (expense_rows d' eid). ea_status row = Approved"
      by blast
    from False have "length rest = Suc (length rest - 1)" by (cases rest) auto
    then have "NoUpdate # replicate (length rest - 1) NoUpdate
                 = replicate (length (a # rest) - 1) NoUpdate"
      by (metis length_Cons diff_Suc_1 replicate_Suc)
    then have "approve_in_order d cid eid (a # rest)
                 = Inr (d', replicate (length (a # rest) - 1) NoUpdate @ [Update Approved])"
      using step run by (simp del: replicate_Suc length_Cons)
    with fin all show ?thesis by blast
  qed
qed


section \<open>Properties of the hybrid check\<close>

text \<open>
  The rows the query of checkHybridApproval returns. When the specific approver of a
  hybrid rule approves a Pending row of an expense under the rule, the expense becomes
  Approved, whatever the other rows are.
\<close>

lemma set_specific_approvals:
  "set (specific_approvals d eid) =
     {ea \<in> set (expense_approvals d). ea_status ea = Approved \<and> ea_approver_id ea \<noteq> None
        \<and> (\<exists>ar \<in> set (approval_rules d). specific_approver_id ar = ea_approver_id ea
              \<and> (\<exists>e \<in> set (expenses d). approval_rule_id e = Some (rule_id ar)
                     \<and> expense_id e = eid))}"
  unfolding specific_approvals_def by (auto split: if_splits)

lemma find_rule_in_set: "find_rule d rid = Some r \<Longrightarrow> r \<in> set (approval_rules d) \<and> rule_id r = rid"
  by (auto simp: find_rule_def find_Some_iff)

lemma hybrid_specific_approver_approves:
  assumes e: "find_expense d eid = Some e" "approval_rule_id e = Some rid"
    and r: "find_rule d rid = Some r" "rule_type r = Hybrid" "specific_approver_id r = Some s"
    and row: "row \<in> set (expense_rows d eid)" "ea_approver_id row = Some s" "ea_status row = Pending"
  shows "\<exists>d'. processApproval d eid s Approve cm = Inr (d', Update Approved)
           \<and> find_expense d' eid = Some (e\<lparr>expense_status := Approved\<rparr>)"
proof -
  let ?d1 = "update_approvals d eid s Approve cm"
  let ?d2 = "update_expense_status ?d1 eid Approved"
  let ?row' = "decide_row eid s Approve cm row"
  have rin: "row \<in> set (expense_approvals d)" using row(1) by (rule expense_rows_subset)
  have reid: "ea_expense_id row = eid" using row(1) by (rule expense_rows_eid)
  have "?row' \<in> set (expense_approvals ?d1)" using rin by simp
  moreover have "ea_status ?row' = Approved" "ea_approver_id ?row' = Some s"
    using row(2,3) reid by (simp_all add: decide_row_Approve_status)
  moreover have "r \<in> set (approval_rules ?d1)" "rule_id r = rid"
    using find_rule_in_set [OF r(1)] by simp_all
  moreover have "e \<in> set (expenses ?d1)" "expense_id e = eid"
    using find_expense_in_set [OF e(1)] find_expense_id [OF e(1)] by simp_all
  ultimately have "?row' \<in> set (specific_approvals ?d1 eid)"
    unfolding set_specific_approvals using r(3) e(2) by auto
  then have "specific_approvals ?d1 eid \<noteq> []" by auto
  then have "checkHybridApproval ?d1 eid (percentage_required r) = Update Approved"
    by (simp add: checkHybridApproval_def)
  then have "shouldUpdateExpenseStatus ?d1 eid Approve = Inr (Update Approved)"
    using e r by (simp add: shouldUpdateExpenseStatus_def)
  from processApproval_Update [OF this e(1)]
  obtain d' where run: "processApproval d eid s Approve cm = Inr (d', Update Approved)"
    and ex: "expenses d' = expenses ?d2"
    by simp
  have "find_expense d' eid = find_expense ?d2 eid"
    by (simp add: find_expense_def ex)
  then have "find_expense d' eid = Some (e\<lparr>expense_status := Approved\<rparr>)"
    using e(1) find_expense_id [OF e(1)]
    by (simp add: find_expense_update_status set_expense_status_hit)
  with run show ?thesis by blast
qed


section \<open>Properties of the number model\<close>

text \<open>
  \<open>binary_exponent\<close> is the exponent of the binade of a positive number.
\<close>

lemma bit_length_pos: "0 < n \<Longrightarrow> bit_length n = Suc (bit_length (n div 2))"
  by (subst bit_length.simps) simp

lemma bit_length_nonpos: "n \<le> 0 \<Longrightarrow> bit_length n = 0"
  by (subst bit_length.simps) simp

lemma bit_length_bounds:
  "0 < n \<Longrightarrow> 2 ^ (bit_length n - 1) \<le> n \<and> n < 2 ^ bit_length n"
proof (induction n rule: bit_length.induct)
  case (1 n)
  show ?case
  proof (cases "n = 1")
    case True
    have "bit_length (1::int) = Suc (bit_length 0)"
      using bit_length_pos [of 1] by simp
    then have "bit_length (1::int) = 1" by (simp add: bit_length_nonpos)
    with True show ?thesis by simp
  next
    case False
    with "1.prems" have half: "0 < n div 2" by simp
    from "1.prems" have "\<not> n \<le> 0" by simp
    from "1.IH" [OF this half]
    have ih: "2 ^ (bit_length (n div 2) - 1) \<le> n div 2" "n div 2 < 2 ^ bit_length (n div 2)"
      by simp_all
    have bl: "bit_length n = Suc (bit_length (n div 2))"
      using "1.prems" by (rule bit_length_pos)
    have pos: "0 < bit_length (n div 2)"
      using bit_length_pos [OF half] by simp
    then have "(2::int) ^ bit_length (n div 2) = 2 * 2 ^ (bit_length (n div 2) - 1)"
      by (cases "bit_length (n div 2)") simp_all
    with ih(1) have lo: "2 ^ bit_length (n div 2) \<le> n" by linarith
    from ih(2) have hi: "n < 2 * 2 ^ bit_length (n div 2)" by linarith
    from lo hi bl show ?thesis by simp
  qed
qed
lemma pow2_power_int: "pow2 e = power_int (2::rat) e"
  by (simp add: pow2_def power_int_def power_one_over)

lemma pow2_pos: "0 < pow2 e"
  by (simp add: pow2_power_int)

lemma pow2_add: "pow2 (a + b) = pow2 a * pow2 b"
  by (simp add: pow2_power_int power_int_add)

lemma pow2_diff: "pow2 (a - b) = pow2 a / pow2 b"
  by (simp add: pow2_power_int power_int_diff)

lemma pow2_nat: "pow2 (int n) = 2 ^ n"
  by (simp add: pow2_def)

lemma pow2_Suc: "pow2 (e + 1) = 2 * pow2 e"
  using pow2_add [of e 1] by (simp add: pow2_def)

lemma binary_exponent_bounds:
  assumes "0 < x"
  shows "pow2 (binary_exponent x) \<le> x \<and> x < pow2 (binary_exponent x + 1)"
proof -
  obtain p q where pq: "quotient_of x = (p, q)" by (cases "quotient_of x")
  then have x: "x = of_int p / of_int q" and q: "0 < q"
    by (simp_all add: quotient_of_div quotient_of_denom_pos)
  with assms have p: "0 < p"
    by (simp add: zero_less_divide_iff)
  let ?a = "bit_length p" and ?b = "bit_length q"
  let ?d = "int ?a - int ?b"
  from bit_length_bounds [OF p] have pb: "2 ^ (?a - 1) \<le> p" "p < 2 ^ ?a" by simp_all
  from bit_length_bounds [OF q] have qb: "2 ^ (?b - 1) \<le> q" "q < 2 ^ ?b" by simp_all
  have apos: "0 < ?a" using bit_length_pos [OF p] by simp
  have bpos: "0 < ?b" using bit_length_pos [OF q] by simp
  have P1: "(of_int p :: rat) < pow2 (int ?a)"
    using pb(2) unfolding pow2_nat by (metis of_int_less_iff of_int_numeral of_int_power)
  have P0: "pow2 (int ?a - 1) \<le> (of_int p :: rat)"
  proof -
    have "int ?a - 1 = int (?a - 1)" using apos by simp
    then have "pow2 (int ?a - 1) = 2 ^ (?a - 1)" by (simp only: pow2_nat)
    also have "\<dots> \<le> of_int p"
      using pb(1) by (metis of_int_le_iff of_int_numeral of_int_power)
    finally show ?thesis .
  qed
  have Q1: "(of_int q :: rat) < pow2 (int ?b)"
    using qb(2) unfolding pow2_nat by (metis of_int_less_iff of_int_numeral of_int_power)
  have Q0: "pow2 (int ?b - 1) \<le> (of_int q :: rat)"
  proof -
    have "int ?b - 1 = int (?b - 1)" using bpos by simp
    then have "pow2 (int ?b - 1) = 2 ^ (?b - 1)" by (simp only: pow2_nat)
    also have "\<dots> \<le> of_int q"
      using qb(1) by (metis of_int_le_iff of_int_numeral of_int_power)
    finally show ?thesis .
  qed
  have qpos: "(0::rat) < of_int q" using q by simp
  have ppos: "(0::rat) < of_int p" using p by simp
  have upper: "x < pow2 (?d + 1)"
  proof -
    have "x < pow2 (int ?a) / of_int q"
      unfolding x using P1 qpos by (simp add: divide_strict_right_mono)
    also have "\<dots> \<le> pow2 (int ?a) / pow2 (int ?b - 1)"
      using Q0 pow2_pos [of "int ?b - 1"] pow2_pos [of "int ?a"]
      by (simp add: frac_le)
    also have "\<dots> = pow2 (?d + 1)"
      by (simp add: pow2_diff [symmetric] algebra_simps)
    finally show ?thesis .
  qed
  have lower: "pow2 (?d - 1) < x"
  proof -
    have "pow2 (?d - 1) = pow2 (int ?a - 1) / pow2 (int ?b)"
      by (simp add: pow2_diff [symmetric] algebra_simps)
    also have "\<dots> \<le> of_int p / pow2 (int ?b)"
      using P0 pow2_pos [of "int ?b"] by (simp add: divide_right_mono)
    also have "\<dots> < of_int p / of_int q"
      using Q1 qpos ppos by (simp add: divide_strict_left_mono)
    finally show ?thesis unfolding x .
  qed
  have e: "binary_exponent x = (if pow2 ?d \<le> x then ?d else ?d - 1)"
    by (simp add: binary_exponent_def pq Let_def)
  show ?thesis
  proof (cases "pow2 ?d \<le> x")
    case True
    with e upper show ?thesis by simp
  next
    case False
    with e lower show ?thesis by simp
  qed
qed

text \<open>
  \<open>round_half_even\<close> returns a nearest integer, the even one of two.
\<close>

lemma round_half_even_nearest:
  "\<bar>of_int (round_half_even y) - y\<bar> \<le> \<bar>of_int n - y\<bar>"
proof -
  let ?f = "\<lfloor>y\<rfloor>"
  have f: "of_int ?f \<le> y" "y < of_int ?f + 1" by linarith+
  consider "n \<le> ?f" | "?f + 1 \<le> n" by linarith
  then show ?thesis
  proof cases
    case 1
    then have "(of_int n :: rat) \<le> of_int ?f" by simp
    with f show ?thesis
      by (auto simp: round_half_even_def Let_def)
  next
    case 2
    then have "(of_int ?f :: rat) + 1 \<le> of_int n"
      by (metis of_int_1 of_int_add of_int_le_iff)
    with f show ?thesis
      by (auto simp: round_half_even_def Let_def)
  qed
qed

lemma round_half_even_error: "\<bar>of_int (round_half_even y) - y\<bar> \<le> 1 / 2"
proof -
  have "of_int \<lfloor>y\<rfloor> \<le> y" "y < of_int \<lfloor>y\<rfloor> + 1" by linarith+
  then show ?thesis
    by (auto simp: round_half_even_def Let_def)
qed

lemma round_half_even_ge: "of_int m \<le> y \<Longrightarrow> m \<le> round_half_even y"
proof -
  assume "of_int m \<le> y"
  then have "m \<le> \<lfloor>y\<rfloor>" by (simp add: le_floor_iff)
  then show ?thesis by (auto simp: round_half_even_def Let_def)
qed

lemma round_half_even_le: "y \<le> of_int m \<Longrightarrow> round_half_even y \<le> m"
proof -
  assume y: "y \<le> of_int m"
  have f: "of_int \<lfloor>y\<rfloor> \<le> y" by linarith
  show ?thesis
  proof (cases "y = of_int m")
    case True
    then show ?thesis by (simp add: round_half_even_def Let_def)
  next
    case False
    with y have "y < of_int m" by simp
    then have "\<lfloor>y\<rfloor> < m" by (simp add: floor_less_iff)
    then show ?thesis by (auto simp: round_half_even_def Let_def)
  qed
qed

lemma round_half_even_tie:
  assumes "y - of_int \<lfloor>y\<rfloor> = 1 / 2"
  shows "even (round_half_even y)"
  using assms by (simp add: round_half_even_def Let_def)

text \<open>
  So \<open>to_double\<close> of a positive number is a multiple of the unit in the last place of
  its binade with a significand between 2^52 and 2^53, no other such multiple is nearer,
  and the error is at most half a unit in the last place.
\<close>

lemma to_double_pos:
  assumes "0 < x"
  shows "to_double x
           = of_int (round_half_even (x / pow2 (binary_exponent x - 52)))
             * pow2 (binary_exponent x - 52)"
  using assms by (simp add: to_double_def Let_def)

lemma to_double_nearest:
  assumes "0 < x"
  shows "\<bar>to_double x - x\<bar> \<le> \<bar>of_int n * pow2 (binary_exponent x - 52) - x\<bar>"
proof -
  let ?u = "pow2 (binary_exponent x - 52)"
  let ?y = "x / ?u"
  have u: "0 < ?u" by (rule pow2_pos)
  then have xy: "x = ?y * ?u" by simp
  have "to_double x - x = (of_int (round_half_even ?y) - ?y) * ?u"
    using u by (simp add: to_double_pos [OF assms] algebra_simps)
  then have "\<bar>to_double x - x\<bar> = \<bar>of_int (round_half_even ?y) - ?y\<bar> * ?u"
    using u by (simp add: abs_mult)
  also have "\<dots> \<le> \<bar>of_int n - ?y\<bar> * ?u"
    using round_half_even_nearest [of ?y n] u by (simp add: mult_right_mono)
  also have "\<dots> = \<bar>(of_int n - ?y) * ?u\<bar>"
    using u by (simp add: abs_mult)
  also have "(of_int n - ?y) * ?u = of_int n * ?u - x"
    using u by (simp add: algebra_simps)
  finally show ?thesis .
qed

lemma to_double_error:
  assumes "0 < x"
  shows "\<bar>to_double x - x\<bar> \<le> pow2 (binary_exponent x - 53)"
proof -
  let ?u = "pow2 (binary_exponent x - 52)"
  let ?y = "x / ?u"
  have u: "0 < ?u" by (rule pow2_pos)
  have "to_double x - x = (of_int (round_half_even ?y) - ?y) * ?u"
    using u by (simp add: to_double_pos [OF assms] algebra_simps)
  then have "\<bar>to_double x - x\<bar> = \<bar>of_int (round_half_even ?y) - ?y\<bar> * ?u"
    using u by (simp add: abs_mult)
  also have "\<dots> \<le> (1 / 2) * ?u"
    using round_half_even_error [of ?y] u by (intro mult_right_mono) simp_all
  also have "\<dots> = pow2 (binary_exponent x - 53)"
    using pow2_Suc [of "binary_exponent x - 53"] by simp
  finally show ?thesis .
qed

lemma to_double_significand:
  assumes "0 < x"
  shows "2 ^ 52 \<le> round_half_even (x / pow2 (binary_exponent x - 52))
         \<and> round_half_even (x / pow2 (binary_exponent x - 52)) \<le> 2 ^ 53"
proof -
  let ?e = "binary_exponent x"
  let ?u = "pow2 (?e - 52)"
  have u: "0 < ?u" by (rule pow2_pos)
  from binary_exponent_bounds [OF assms]
  have b: "pow2 ?e \<le> x" "x < pow2 (?e + 1)" by simp_all
  have "pow2 ?e / ?u = pow2 52" "pow2 (?e + 1) / ?u = pow2 53"
    by (simp_all add: pow2_diff [symmetric])
  moreover have "pow2 52 = 2 ^ 52" "pow2 53 = 2 ^ 53"
    by (simp_all add: pow2_def)
  ultimately have lo: "(2::rat) ^ 52 \<le> x / ?u" and hi: "x / ?u \<le> 2 ^ 53"
    using b u divide_right_mono [of "pow2 ?e" x ?u] divide_right_mono [of x "pow2 (?e + 1)" ?u]
    by simp_all
  have "(of_int (2 ^ 52) :: rat) \<le> x / ?u" using lo by simp
  from round_half_even_ge [OF this] have 1: "2 ^ 52 \<le> round_half_even (x / ?u)" .
  have "x / ?u \<le> (of_int (2 ^ 53) :: rat)" using hi by simp
  from round_half_even_le [OF this] have 2: "round_half_even (x / ?u) \<le> 2 ^ 53" .
  from 1 2 show ?thesis by simp
qed


section \<open>The percentage check\<close>

text \<open>
  The rounding at known values: the binary64 value of 0.1, ties going to the even
  significand at 2^53 + 1 and 2^53 + 3, and 0.6 * 100, whose exact product is not 60 but
  rounds to it.
\<close>

lemma to_double_examples:
  "to_double (1 / 10) = 3602879701896397 / 36028797018963968"
  "to_double 9007199254740993 = 9007199254740992"
  "to_double 9007199254740995 = 9007199254740996"
  "to_double (3 / 5) * 100 \<noteq> 60"
  "to_double (to_double (3 / 5) * 100) = 60"
  by code_simp+

text \<open>
  The scenario with 60 percent required and five rows, two approvals do not close
  the expense and three do.
\<close>

lemma percentage_60_of_5_scenario:
  "checkPercentageApproval
      (ledger_db (percentage_rule 60)
         (map (ledger_row 1 Approved) [1, 2] @ map (ledger_row 1 Pending) [3, 4, 5]))
      1 (Some 60) = NoUpdate
   \<and> checkPercentageApproval
      (ledger_db (percentage_rule 60)
         (map (ledger_row 1 Approved) [1, 2, 3] @ map (ledger_row 1 Pending) [4, 5]))
      1 (Some 60) = Update Approved"
  by code_simp

text \<open>
  The same in a run of decisions, from the ledger the workflow builds: five managers approve
  one after the other; the third approval is the first to close the expense, in either
  order. The fourth and fifth approvals set the status again.
\<close>

lemma five_approvers_60_percent:
  "createApprovalWorkflow (five_db\<lparr>expense_approvals := []\<rparr>) 1 5 = Inr five_db
   \<and> map_sum id snd (approve_in_order five_db 1 1 [1, 2, 3, 4, 5])
       = Inr [NoUpdate, NoUpdate, Update Approved, Update Approved, Update Approved]
   \<and> map_sum id snd (approve_in_order five_db 1 1 [4, 2, 5, 1, 3])
       = Inr [NoUpdate, NoUpdate, Update Approved, Update Approved, Update Approved]"
  by code_simp


section \<open>The claims\<close>


subsection \<open>C1: the expense status after it is terminal\<close>

text \<open>
  C1 fails on the code. processApproval writes the expense status whenever the completion
  check says so and never looks at the status the expense has. Under a percentage rule of
  50 with two approvers, admin 1 approves and the expense is Approved (1 of 2); manager 2
  still holds a Pending row, rejects through the route, and the expense is Rejected.
\<close>

theorem approved_expense_rejected_later:
  "process_route half_ledger_db 1 1 1 Approve None = Inr (half_ledger_approved_db, Update Approved)
   \<and> map expense_status (expenses half_ledger_approved_db) = [Approved]
   \<and> pendingApproval half_ledger_approved_db 1 2 1 \<noteq> []
   \<and> \<not> isl (process_route half_ledger_approved_db 2 1 1 Reject None)
   \<and> map expense_status (expenses (db_after half_ledger_approved_db
         (process_route half_ledger_approved_db 2 1 1 Reject None))) = [Rejected]"
  by code_simp


subsection \<open>C2: rule selection\<close>

text \<open>
  C2 (amended). getApplicableRule returns no rule exactly when no rule of the company is
  active with the amount inside its range (an unset bound admits every amount). A rule it
  returns is such a rule, and no other such rule sorts strictly before it under
  \<^verbatim>\<open>ORDER BY min_amount DESC, sequence_order ASC\<close>: where both minimum amounts are set,
  the returned one is at least as high, and with equal minimum amounts its sequence order
  is at most the other's. Which of several rules equal in both keys is returned is not
  fixed. In the scenario (amount 50, rule A with range 0..100, rule B with range 0..1000),
  A is returned when its sequence order is lower than B's, in either storage order.
\<close>

theorem getApplicableRule_best_match:
  "(getApplicableRule d amount cid = None \<longleftrightarrow>
      (\<forall>r \<in> set (approval_rules d). \<not> rule_matches amount cid r))
   \<and> (\<forall>r. getApplicableRule d amount cid = Some r \<longrightarrow>
         r \<in> set (approval_rules d) \<and> rule_matches amount cid r
         \<and> (\<forall>r' \<in> set (approval_rules d). rule_matches amount cid r' \<longrightarrow>
               \<not> rule_before r' r
               \<and> (\<forall>lo lo'. min_amount r = Some lo \<and> min_amount r' = Some lo' \<longrightarrow>
                     lo' \<le> lo
                     \<and> (lo' = lo \<longrightarrow>
                          (\<forall>s s'. sequence_order r = Some s \<and> sequence_order r' = Some s'
                             \<longrightarrow> s \<le> s')))))
   \<and> (\<forall>sa sb. sa < sb
         \<and> (approval_rules d = [scenario_rule_A sa, scenario_rule_B sb]
            \<or> approval_rules d = [scenario_rule_B sb, scenario_rule_A sa])
         \<longrightarrow> getApplicableRule d 50 1 = Some (scenario_rule_A sa))"
proof (intro conjI allI impI ballI)
  show "getApplicableRule d amount cid = None \<longleftrightarrow>
      (\<forall>r \<in> set (approval_rules d). \<not> rule_matches amount cid r)"
    by (rule getApplicableRule_None_iff)
next
  fix r assume "getApplicableRule d amount cid = Some r"
  from getApplicableRule_Some_best [OF this]
  show "r \<in> set (approval_rules d)" "rule_matches amount cid r" by simp_all
next
  fix r r' assume "getApplicableRule d amount cid = Some r"
    "r' \<in> set (approval_rules d)" "rule_matches amount cid r'"
  with getApplicableRule_Some_best [of d amount cid r]
  show nb: "\<not> rule_before r' r" by blast
  fix lo lo' assume m: "min_amount r = Some lo \<and> min_amount r' = Some lo'"
  from rule_before_explicit [OF nb] m show "lo' \<le> lo" by blast
  assume eq: "lo' = lo"
  fix s s' assume "sequence_order r = Some s \<and> sequence_order r' = Some s'"
  with rule_before_explicit [OF nb] m eq show "s \<le> s'" by blast
next
  fix sa sb :: int
  assume h: "sa < sb \<and> (approval_rules d = [scenario_rule_A sa, scenario_rule_B sb]
            \<or> approval_rules d = [scenario_rule_B sb, scenario_rule_A sa])"
  then show "getApplicableRule d 50 1 = Some (scenario_rule_A sa)"
    by (auto simp: getApplicableRule_def rule_matches_def rule_before_def
        scenario_rule_A_def scenario_rule_B_def)
qed

text \<open>The theorem at work: B stored first, A with the lower sequence order; and an empty rule set.\<close>

theorem getApplicableRule_best_match_witness:
  "getApplicableRule (rules_db [scenario_rule_B 2, scenario_rule_A 1]) 50 1
     = Some (scenario_rule_A 1)
   \<and> scenario_rule_B 2 \<in> set (approval_rules (rules_db [scenario_rule_B 2, scenario_rule_A 1]))
   \<and> rule_matches 50 1 (scenario_rule_B 2)
   \<and> \<not> rule_before (scenario_rule_B 2) (scenario_rule_A 1)
   \<and> getApplicableRule (rules_db []) 50 1 = None"
  using getApplicableRule_best_match [of "rules_db [scenario_rule_B 2, scenario_rule_A 1]" 50 1]
    getApplicableRule_best_match [of "rules_db []" 50 1]
  by (simp add: rules_db_def rule_matches_def scenario_rule_A_def scenario_rule_B_def)

text \<open>
  C2 as stated fails: both rules are active and match the amount 50, the minimum amounts
  tie, and B has the lower sequence order, so B is returned, not A.
\<close>

theorem getApplicableRule_scenario_counterexample:
  "is_active (scenario_rule_A 2) \<and> is_active (scenario_rule_B 1)
   \<and> rule_matches 50 1 (scenario_rule_A 2) \<and> rule_matches 50 1 (scenario_rule_B 1)
   \<and> getApplicableRule (rules_db [scenario_rule_A 2, scenario_rule_B 1]) 50 1
       = Some (scenario_rule_B 1)
   \<and> scenario_rule_B 1 \<noteq> scenario_rule_A 2"
  by (simp add: getApplicableRule_def rules_db_def rule_matches_def rule_before_def
      scenario_rule_A_def scenario_rule_B_def)


subsection \<open>C3: the approver of an admin step\<close>

text \<open>
  C3 fails on the code. createSequentialApprovals resolves the role 'manager' only; a step
  with the role 'admin' keeps \<^verbatim>\<open>step.approver_id\<close>, which such a step need not have.
  For the rule with the steps manager and admin, the workflow of expense 1 is the single
  row of the employee's manager (user 2, step 1); the admin step creates no row although
  user 1 is an active admin of the company.
\<close>

theorem admin_step_creates_no_row:
  "createApprovalWorkflow two_step_db 1 4
     = Inr (two_step_db\<lparr>expense_approvals :=
              [\<lparr>ea_expense_id = 1, ea_approver_id = Some 2, ea_step_order = 1,
                ea_status = Pending, ea_comments = None\<rparr>]\<rparr>)
   \<and> map user_id (filter (\<lambda>u. user_company_id u = 1 \<and> role u = Admin \<and> user_is_active u)
         (users two_step_db)) = [1]"
  by code_simp


subsection \<open>C4: the percentage check\<close>

text \<open>
  C4 fails on the code in general. \<^verbatim>\<open>(approved / total) * 100\<close> is computed in binary
  floating point: 29 / 50 rounds to a number below 0.58 and its product with 100 rounds to
  57.99999999999999. With 58 percent required and fifty rows, the 29th approval (exactly
  58 percent) does not approve the expense.
\<close>

theorem percentage_58_of_50_not_approved:
  "length (expense_rows (update_approvals fifty_db 1 29 Approve None) 1) = 50
   \<and> length (filter (\<lambda>r. ea_status r = Approved)
         (expense_rows (update_approvals fifty_db 1 29 Approve None) 1)) = 29
   \<and> (58::int) * 50 \<le> 29 * 100
   \<and> js_mul (js_div 29 50) 100 = Finite (8162774324609023 / 140737488355328)
   \<and> processApproval fifty_db 1 29 Approve None
       = Inr (update_approvals fifty_db 1 29 Approve None, NoUpdate)
   \<and> map expense_status (expenses (update_approvals fifty_db 1 29 Approve None)) = [Pending]"
  by code_simp


subsection \<open>C5: the hybrid check\<close>

text \<open>
  C5 fails on the code. The query of checkHybridApproval joins the ledger to the rule by
  the approver only, not by the expense, so an Approved row of the specific approver on
  any expense counts. Manager 2 (the specific approver) approves expense 1, which closes
  it. Then admin 1 approves expense 2: its specific-approver row is Pending and one of its
  three rows is Approved (required: 60 percent), yet expense 2 becomes Approved.
\<close>

theorem hybrid_closed_by_other_expense:
  "process_route two_hybrid_db 2 1 1 Approve None = Inr (first_approved_db, Update Approved)
   \<and> map expense_status (expenses first_approved_db) = [Approved, Pending]
   \<and> \<not> isl (process_route first_approved_db 1 1 2 Approve None)
   \<and> map ea_status (expense_rows (db_after first_approved_db
         (process_route first_approved_db 1 1 2 Approve None)) 2) = [Approved, Pending, Pending]
   \<and> map expense_status (expenses (db_after first_approved_db
         (process_route first_approved_db 1 1 2 Approve None))) = [Approved, Approved]"
  by code_simp


subsection \<open>C6: the sequential check\<close>

text \<open>
  C6. checkSequentialApproval returns \<open>Update Approved\<close> exactly when every ledger row of
  the expense is Approved, and under a sequential rule an approval sets the expense to
  Approved exactly when, with that decision recorded, every row is Approved. For an
  expense under a sequential rule whose rows are all Pending, let the approvers who hold
  these rows decide in any order (any list without repetition that names exactly these
  approvers), each approving without a comment: every
  call succeeds, every call but the last returns \<open>NoUpdate\<close>, the last returns
  \<open>Update Approved\<close>, and the run leaves the expense Approved with all its rows Approved.
  So the status is set to Approved once, by the last approval.
\<close>

theorem sequential_approved_when_all_approve:
  "(checkSequentialApproval d eid = Update Approved
      \<longleftrightarrow> (\<forall>row \<in> set (expense_rows d eid). ea_status row = Approved))
   \<and> (\<forall>e rid r a cm.
         find_expense d eid = Some e \<and> approval_rule_id e = Some rid
         \<and> find_rule d rid = Some r \<and> rule_type r = Sequential
       \<longrightarrow> ((\<exists>d'. processApproval d eid a Approve cm = Inr (d', Update Approved))
              \<longleftrightarrow> (\<forall>row \<in> set (expense_rows (update_approvals d eid a Approve cm) eid).
                     ea_status row = Approved)))
   \<and> (\<forall>e rid r as.
         find_expense d eid = Some e \<and> approval_rule_id e = Some rid
         \<and> expense_company_id e = cid
         \<and> find_rule d rid = Some r \<and> rule_type r = Sequential
         \<and> distinct as \<and> as \<noteq> []
         \<and> (\<forall>row \<in> set (expense_rows d eid).
               ea_status row = Pending \<and> (\<exists>a \<in> set as. ea_approver_id row = Some a))
         \<and> (\<forall>a \<in> set as. \<exists>row \<in> set (expense_rows d eid). ea_approver_id row = Some a)
       \<longrightarrow> (\<exists>d'. approve_in_order d cid eid as
                     = Inr (d', replicate (length as - 1) NoUpdate @ [Update Approved])
              \<and> find_expense d' eid = Some (e\<lparr>expense_status := Approved\<rparr>)
              \<and> (\<forall>row \<in> set (expense_rows d' eid). ea_status row = Approved)))"
proof (intro conjI allI impI)
  show "checkSequentialApproval d eid = Update Approved
      \<longleftrightarrow> (\<forall>row \<in> set (expense_rows d eid). ea_status row = Approved)"
    by (rule checkSequentialApproval_Approved_iff)
next
  fix e rid r a cm
  assume "find_expense d eid = Some e \<and> approval_rule_id e = Some rid
         \<and> find_rule d rid = Some r \<and> rule_type r = Sequential"
  then show "(\<exists>d'. processApproval d eid a Approve cm = Inr (d', Update Approved))
              \<longleftrightarrow> (\<forall>row \<in> set (expense_rows (update_approvals d eid a Approve cm) eid).
                     ea_status row = Approved)"
    by (intro processApproval_Sequential_Approved_iff) blast+
next
  fix e rid r as
  assume h: "find_expense d eid = Some e \<and> approval_rule_id e = Some rid
         \<and> expense_company_id e = cid
         \<and> find_rule d rid = Some r \<and> rule_type r = Sequential
         \<and> distinct as \<and> as \<noteq> []
         \<and> (\<forall>row \<in> set (expense_rows d eid).
               ea_status row = Pending \<and> (\<exists>a \<in> set as. ea_approver_id row = Some a))
         \<and> (\<forall>a \<in> set as. \<exists>row \<in> set (expense_rows d eid). ea_approver_id row = Some a)"
  then have inv1: "\<forall>row \<in> set (expense_rows d eid).
                 ea_status row = Approved
                 \<or> (ea_status row = Pending \<and> (\<exists>a \<in> set as. ea_approver_id row = Some a))"
    by blast
  from h have inv2: "\<forall>a \<in> set as. \<exists>row \<in> set (expense_rows d eid).
                 ea_approver_id row = Some a \<and> ea_status row = Pending"
    by blast
  from h show "\<exists>d'. approve_in_order d cid eid as
                     = Inr (d', replicate (length as - 1) NoUpdate @ [Update Approved])
              \<and> find_expense d' eid = Some (e\<lparr>expense_status := Approved\<rparr>)
              \<and> (\<forall>row \<in> set (expense_rows d' eid). ea_status row = Approved)"
    by (intro approve_in_order_sequential [OF _ _ _ _ _ _ _ inv1 inv2]) blast+
qed

text \<open>
  The theorem at the ledger built for a rule with three steps (approvers 2, 5, 1 in step
  order), decided in the order 1, 5, 2.
\<close>

theorem sequential_approved_when_all_approve_witness:
  "createApprovalWorkflow three_step_db 1 8 = Inr three_step_ledger_db
   \<and> (\<exists>d'. approve_in_order three_step_ledger_db 1 1 [1, 5, 2]
              = Inr (d', [NoUpdate, NoUpdate, Update Approved])
          \<and> find_expense d' 1 = Some ((pending_expense 1 3 8)\<lparr>expense_status := Approved\<rparr>)
          \<and> (\<forall>row \<in> set (expense_rows d' 1). ea_status row = Approved))
   \<and> checkSequentialApproval three_step_ledger_db 1 \<noteq> Update Approved"
proof -
  have built: "createApprovalWorkflow three_step_db 1 8 = Inr three_step_ledger_db"
    by code_simp
  have e: "find_expense three_step_ledger_db 1 = Some (pending_expense 1 3 8)"
    by (simp add: find_expense_def three_step_ledger_db_def three_step_db_def pending_expense_def)
  have a: "approval_rule_id (pending_expense 1 3 8) = Some 8"
    "expense_company_id (pending_expense 1 3 8) = 1"
    by (simp_all add: pending_expense_def)
  have r: "find_rule three_step_ledger_db 8 = Some three_step_rule"
    "rule_type three_step_rule = Sequential"
    by (simp_all add: find_rule_def three_step_ledger_db_def three_step_db_def three_step_rule_def)
  have l: "distinct [1, 5, 2::nat]" "[1, 5, 2::nat] \<noteq> []"
    by simp_all
  have rows: "expense_rows three_step_ledger_db 1 = expense_approvals three_step_ledger_db"
    by (simp add: expense_rows_def three_step_ledger_db_def)
  have p: "\<forall>row \<in> set (expense_rows three_step_ledger_db 1).
               ea_status row = Pending \<and> (\<exists>a \<in> set [1, 5, 2]. ea_approver_id row = Some a)"
    unfolding rows by (simp add: three_step_ledger_db_def)
  have q: "\<forall>a \<in> set [1, 5, 2]. \<exists>row \<in> set (expense_rows three_step_ledger_db 1).
               ea_approver_id row = Some a"
    unfolding rows by (simp add: three_step_ledger_db_def)
  have n: "\<not> (\<forall>row \<in> set (expense_rows three_step_ledger_db 1). ea_status row = Approved)"
    unfolding rows by (simp add: three_step_ledger_db_def)
  from sequential_approved_when_all_approve [of three_step_ledger_db 1 1] e a r l p q
  have "\<exists>d'. approve_in_order three_step_ledger_db 1 1 [1, 5, 2]
              = Inr (d', replicate (length [1, 5, 2::nat] - 1) NoUpdate @ [Update Approved])
          \<and> find_expense d' 1 = Some ((pending_expense 1 3 8)\<lparr>expense_status := Approved\<rparr>)
          \<and> (\<forall>row \<in> set (expense_rows d' 1). ea_status row = Approved)"
    by blast
  moreover have "replicate (length [1, 5, 2::nat] - 1) NoUpdate @ [Update Approved]
                  = [NoUpdate, NoUpdate, Update Approved]"
    by (simp add: numeral_2_eq_2)
  moreover from sequential_approved_when_all_approve [of three_step_ledger_db 1 1] n
  have "checkSequentialApproval three_step_ledger_db 1 \<noteq> Update Approved"
    by blast
  ultimately show ?thesis using built by simp
qed

subsection \<open>C7: a rejection is a veto\<close>



subsection \<open>C8: the pending-row guard of the route\<close>




subsection \<open>C10: a sequential rule without steps\<close>

text \<open>
  C10 (amended). createApprovalWorkflow raises no configuration error. It fails with
  'Approval rule not found' when no rule has the given id, and for a sequential rule
  without steps it inserts nothing and commits: the database is returned unchanged.
\<close>

theorem createApprovalWorkflow_without_steps:
  "(find_rule d rid = None \<longrightarrow> createApprovalWorkflow d eid rid = Inl RuleNotFound)
   \<and> (\<forall>r. find_rule d rid = Some r \<and> rule_type r = Sequential
          \<and> (\<forall>s \<in> set (approval_rule_steps d). step_rule_id s \<noteq> rid)
        \<longrightarrow> createApprovalWorkflow d eid rid = Inr d)"
  by (auto simp: createApprovalWorkflow_def createSequentialApprovals_def rule_steps_empty)

text \<open>The theorem at the default rule 'Small Expenses' of a new company, and at a rule id that does not exist.\<close>

theorem createApprovalWorkflow_without_steps_witness:
  "find_rule signup_db 1 = Some small_expenses_rule
   \<and> rule_type small_expenses_rule = Sequential
   \<and> createApprovalWorkflow signup_db 1 1 = Inr signup_db
   \<and> find_rule signup_db 7 = None
   \<and> createApprovalWorkflow signup_db 1 7 = Inl RuleNotFound"
proof -
  have f: "find_rule signup_db 1 = Some small_expenses_rule"
    by (simp add: find_rule_def signup_db_def small_expenses_rule_def)
  have t: "rule_type small_expenses_rule = Sequential"
    by (simp add: small_expenses_rule_def)
  have s: "\<forall>s \<in> set (approval_rule_steps signup_db). step_rule_id s \<noteq> 1"
    by (simp add: signup_db_def)
  have n: "find_rule signup_db 7 = None"
    by (simp add: find_rule_def signup_db_def small_expenses_rule_def
        medium_expenses_rule_def large_expenses_rule_def)
  from createApprovalWorkflow_without_steps [of signup_db 1 1] f t s
  have "createApprovalWorkflow signup_db 1 1 = Inr signup_db" by blast
  moreover from createApprovalWorkflow_without_steps [of signup_db 7 1] n
  have "createApprovalWorkflow signup_db 1 7 = Inl RuleNotFound" by blast
  ultimately show ?thesis using f t n by simp
qed

text \<open>
  C10 as stated fails: the default sequential rule has no steps, and building the workflow
  of expense 1 under it succeeds with no ledger row.
\<close>

theorem createApprovalWorkflow_no_steps_counterexample:
  "find_rule signup_db 1 = Some small_expenses_rule
   \<and> rule_type small_expenses_rule = Sequential
   \<and> rule_steps signup_db 1 = []
   \<and> createApprovalWorkflow signup_db 1 1 = Inr signup_db
   \<and> expense_rows signup_db 1 = []"
  by (simp add: createApprovalWorkflow_def createSequentialApprovals_def rule_steps_def
      find_rule_def signup_db_def small_expenses_rule_def expense_rows_def)

end
